theory Spec2Isabelle
  imports Main "HOL-Library.Word" "HOL-Library.Multiset"
begin

section \<open>Strings\<close>

text \<open>
  A JavaScript string is a sequence of UTF-16 code units. The regular expression of
  \<^verbatim>\<open>trendingTags\<close> has no \<^verbatim>\<open>u\<close> flag, so it too works on code units. String
  literals of the source that are not ASCII are given by their code units.
\<close>

type_synonym jsstring = "16 word list"

definition ascii :: "string \<Rightarrow> jsstring" where
  "ascii s = map (\<lambda>c. of_char c) s"

text \<open>A string is falsy in a condition or under \<^verbatim>\<open>||\<close> exactly when it is empty.\<close>

definition or_else :: "jsstring \<Rightarrow> jsstring \<Rightarrow> jsstring" where
  "or_else a b = (if a \<noteq> [] then a else b)"

section \<open>Data model (src/App.tsx, lines 5 to 29)\<close>

text \<open>
  Field names are those of the source; a suffix tells apart fields that several
  interfaces share (\<^verbatim>\<open>id\<close>, \<^verbatim>\<open>name\<close>, \<^verbatim>\<open>timestamp\<close>, \<^verbatim>\<open>title\<close>, ...).
  A \<^verbatim>\<open>number\<close> holding an id or a count is an \<^typ>\<open>int\<close>: the integer value of
  the double. Comparisons and \<^verbatim>\<open>Math.max\<close> are exact on doubles; the one addition made
  on an id is rounded as the double addition is (\<open>add_one_js\<close> below). A timestamp is written by \<^verbatim>\<open>new Date().toISOString()\<close> and read by
  \<^verbatim>\<open>new Date(ts).getTime()\<close>; it is modelled by the number of milliseconds that the
  second returns for the string the first wrote.
\<close>

datatype role = Student | Admin

record User =
  id_user :: jsstring
  name_user :: jsstring
  role_user :: role
  class_user :: "jsstring option"
  email_user :: "jsstring option"

record Signature =
  userId :: jsstring
  userName :: jsstring
  timestamp_sig :: int

text \<open>
  The four literals of \<^verbatim>\<open>Proposal['status']\<close>, in the order of \<^verbatim>\<open>STATUS_STEPS\<close>
  (received, under review, coordinating with teachers, resolved).
\<close>

datatype status = Received | UnderReview | Coordinating | Resolved

record Proposal =
  id_proposal :: int
  title :: jsstring
  content :: jsstring
  category :: jsstring
  status :: status
  adminResponse :: jsstring
  timestamp :: int
  signatures :: "Signature list"

section \<open>Component state (src/App.tsx, lines 62 to 97)\<close>

datatype view = Home | Proposals | Status | Login | Register

record PostForm =
  title_form :: jsstring
  content_form :: jsstring
  category_form :: jsstring

record AiAnalysis =
  advice :: jsstring
  loading :: bool
  detectedCategory :: "jsstring option"
  detectedTags :: "jsstring list option"

text \<open>
  The hooks of \<^verbatim>\<open>App\<close> that the handlers below read or write. \<open>schoolProposals\<close> is
  the entry of that name in \<^verbatim>\<open>localStorage\<close> (\<open>None\<close> when the key is absent);
  \<^verbatim>\<open>JSON.stringify\<close> followed by \<^verbatim>\<open>JSON.parse\<close> gives the collection back.
  \<open>inFlight\<close> holds, for every call of \<^verbatim>\<open>analyzeProposal\<close> whose promise has not
  settled yet, the title and the content it was called with: these are the
  continuations of \<^verbatim>\<open>handleAIAnalyze\<close> suspended at its \<^verbatim>\<open>await\<close>.
\<close>

record app_state =
  user :: "User option"
  view :: view
  proposals :: "Proposal list"
  postForm :: PostForm
  aiAnalysis :: "AiAnalysis option"
  isAIApproved :: bool
  isPostModalOpen :: bool
  schoolProposals :: "Proposal list option"
  inFlight :: "(jsstring \<times> jsstring) list"

section \<open>Endorsements: toggleSignature (src/App.tsx, lines 316 to 341)\<close>

text \<open>\<^verbatim>\<open>Array.prototype.findIndex\<close>: the first index whose element satisfies the
  predicate, \<open>- 1\<close> when there is none.\<close>

fun findIndex :: "('a \<Rightarrow> bool) \<Rightarrow> 'a list \<Rightarrow> int" where
  "findIndex P [] = - 1"
| "findIndex P (x # xs) =
     (if P x then 0 else (let i = findIndex P xs in if i < 0 then - 1 else i + 1))"

text \<open>\<^verbatim>\<open>xs.splice(start, deleteCount)\<close> for \<open>0 \<le> start\<close>, as the array it leaves.\<close>

definition splice_js :: "nat \<Rightarrow> nat \<Rightarrow> 'a list \<Rightarrow> 'a list" where
  "splice_js start deleteCount xs = take start xs @ drop (start + deleteCount) xs"

text \<open>The callback given to \<^verbatim>\<open>proposals.map\<close>; \<open>now\<close> is what \<^verbatim>\<open>new Date()\<close> reads.\<close>

definition toggle_one :: "User \<Rightarrow> int \<Rightarrow> int \<Rightarrow> Proposal \<Rightarrow> Proposal" where
  "toggle_one u now proposalId p =
     (if id_proposal p = proposalId then
        (let signedIndex = findIndex (\<lambda>s. userId s = id_user u) (signatures p) in
         if signedIndex \<ge> 0
         then p\<lparr>signatures := splice_js (nat signedIndex) 1 (signatures p)\<rparr>
         else p\<lparr>signatures := signatures p @
                [\<lparr>userId = id_user u, userName = name_user u, timestamp_sig = now\<rparr>]\<rparr>)
      else p)"

text \<open>\<open>confirmed\<close> is the answer to the \<^verbatim>\<open>confirm\<close> dialog, asked only when nobody is
  logged in.\<close>

definition toggleSignature :: "bool \<Rightarrow> int \<Rightarrow> int \<Rightarrow> app_state \<Rightarrow> app_state" where
  "toggleSignature confirmed now proposalId st =
     (case user st of
        None \<Rightarrow> (if confirmed then st\<lparr>view := Login\<rparr> else st)
      | Some u \<Rightarrow>
          (let updated = map (toggle_one u now proposalId) (proposals st)
           in st\<lparr>proposals := updated, schoolProposals := Some updated\<rparr>))"

section \<open>Administration: updateAdminStatus (src/App.tsx, lines 343 to 352)\<close>

definition updateAdminStatus :: "int \<Rightarrow> status \<Rightarrow> jsstring \<Rightarrow> app_state \<Rightarrow> app_state" where
  "updateAdminStatus proposalId newStatus response st =
     (let updated = map (\<lambda>p. if id_proposal p = proposalId
                              then p\<lparr>status := newStatus, adminResponse := response\<rparr>
                              else p) (proposals st)
      in st\<lparr>proposals := updated, schoolProposals := Some updated\<rparr>)"

section \<open>Moderation client: analyzeProposal (src/services/geminiService.ts)\<close>

record AIAnalysisResult =
  isAppropriate :: bool
  category_res :: jsstring
  tags :: "jsstring list"
  refinedTitle :: "jsstring option"
  refinedContent :: "jsstring option"
  advice_res :: "jsstring option"

text \<open>The category literal of line 117 (hiragana so, no; kanji ta: "other").\<close>

definition CAT_OTHER :: jsstring where
  "CAT_OTHER = [0x305D, 0x306E, 0x4ED6]"

text \<open>The advisory of line 119: the check is out of order for the moment, try again
  later (41 code units).\<close>

definition ADVICE_UNAVAILABLE :: jsstring where
  "ADVICE_UNAVAILABLE =
     [0x0041, 0x0049, 0x30C1, 0x30A7, 0x30C3, 0x30AF, 0x6A5F, 0x80FD, 0x306B, 0x4E00,
      0x6642, 0x7684, 0x306A, 0x4E0D, 0x5177, 0x5408, 0x304C, 0x767A, 0x751F, 0x3057,
      0x3066, 0x3044, 0x307E, 0x3059, 0x3002, 0x6642, 0x9593, 0x3092, 0x304A, 0x3044,
      0x3066, 0x518D, 0x5EA6, 0x304A, 0x8A66, 0x3057, 0x304F, 0x3060, 0x3055, 0x3044,
      0x3002]"

text \<open>
  What \<^verbatim>\<open>await ai.models.generateContent(...)\<close> does: the promise rejects, or it
  gives a response whose \<^verbatim>\<open>text\<close> is a string or \<^verbatim>\<open>undefined\<close>. The service is a
  parameter \<open>generateContent\<close> of the title and the content the prompt is built from;
  \<^verbatim>\<open>JSON.parse\<close> followed by the unchecked cast is a parameter \<open>JSON_parse\<close> that
  returns \<open>None\<close> where \<^verbatim>\<open>JSON.parse\<close> throws.
\<close>

datatype genai_outcome = Failed | Replied "jsstring option"

datatype exn = UpstreamError | NoResponse | SyntaxError

text \<open>The body of the \<^verbatim>\<open>try\<close> block: \<open>Inl\<close> is a throw.\<close>

definition analyze_try ::
  "(jsstring \<Rightarrow> jsstring \<Rightarrow> genai_outcome) \<Rightarrow> (jsstring \<Rightarrow> AIAnalysisResult option) \<Rightarrow>
   jsstring \<Rightarrow> jsstring \<Rightarrow> exn + AIAnalysisResult" where
  "analyze_try generateContent JSON_parse title_arg content_arg =
     (case generateContent title_arg content_arg of
        Failed \<Rightarrow> Inl UpstreamError
      | Replied text \<Rightarrow>
          (case text of
             None \<Rightarrow> Inl NoResponse
           | Some t \<Rightarrow>
               if t = [] then Inl NoResponse
               else (case JSON_parse t of
                       None \<Rightarrow> Inl SyntaxError
                     | Some result \<Rightarrow> Inr result)))"

text \<open>The object returned by the \<^verbatim>\<open>catch\<close> block.\<close>

definition fallback :: AIAnalysisResult where
  "fallback = \<lparr>isAppropriate = False, category_res = CAT_OTHER, tags = [],
                refinedTitle = None, refinedContent = None,
                advice_res = Some ADVICE_UNAVAILABLE\<rparr>"

definition analyzeProposal ::
  "(jsstring \<Rightarrow> jsstring \<Rightarrow> genai_outcome) \<Rightarrow> (jsstring \<Rightarrow> AIAnalysisResult option) \<Rightarrow>
   jsstring \<Rightarrow> jsstring \<Rightarrow> AIAnalysisResult" where
  "analyzeProposal generateContent JSON_parse title_arg content_arg =
     (case analyze_try generateContent JSON_parse title_arg content_arg of
        Inl error \<Rightarrow> fallback
      | Inr result \<Rightarrow> result)"

section \<open>Submission gate (src/App.tsx, lines 228 to 297)\<close>

datatype field = Title | Content | Category

definition set_field :: "field \<Rightarrow> jsstring \<Rightarrow> PostForm \<Rightarrow> PostForm" where
  "set_field f v prev =
     (case f of
        Title \<Rightarrow> prev\<lparr>title_form := v\<rparr>
      | Content \<Rightarrow> prev\<lparr>content_form := v\<rparr>
      | Category \<Rightarrow> prev\<lparr>category_form := v\<rparr>)"

definition handleInputChange :: "field \<Rightarrow> jsstring \<Rightarrow> app_state \<Rightarrow> app_state" where
  "handleInputChange f v st =
     st\<lparr>postForm := set_field f v (postForm st), isAIApproved := False, aiAnalysis := None\<rparr>"

text \<open>\<^verbatim>\<open>a || b\<close> where \<open>a\<close> may be \<^verbatim>\<open>undefined\<close>.\<close>

definition or_else_opt :: "jsstring option \<Rightarrow> jsstring \<Rightarrow> jsstring" where
  "or_else_opt a b = (case a of None \<Rightarrow> b | Some x \<Rightarrow> or_else x b)"

text \<open>\<^verbatim>\<open>Math.max(...xs)\<close>; without arguments it is \<^verbatim>\<open>-Infinity\<close>, here \<open>None\<close>.\<close>

fun Math_max :: "int list \<Rightarrow> int option" where
  "Math_max [] = None"
| "Math_max (x # xs) = Some (fold max xs x)"

text \<open>
  \<^verbatim>\<open>m + 1\<close> on a double \<open>m\<close> with an integer value. Up to \<open>2 ^ 53\<close> in absolute value
  every integer is a double and the sum is exact. Beyond, up to \<open>2 ^ 54\<close>, the doubles
  are the even integers: \<open>m + 1\<close> lies half way between \<open>m\<close> and \<open>m + 2\<close> and is rounded
  to the one of the two with an even significand, which is the multiple of 4. From
  \<open>2 ^ 54\<close> on the doubles are at least 4 apart and the sum is rounded back to \<open>m\<close>.
\<close>

definition add_one_js :: "int \<Rightarrow> int" where
  "add_one_js m =
     (if \<bar>m + 1\<bar> \<le> 2 ^ 53 then m + 1
      else if \<bar>m\<bar> < 2 ^ 54 then (if m mod 4 = 0 then m else m + 2)
      else m)"

text \<open>Line 242. The source asks for the maximum only of a non-empty array, so the
  branch for \<open>None\<close> is never taken.\<close>

definition newId :: "Proposal list \<Rightarrow> int" where
  "newId ps =
     (if length ps > 0
      then (case Math_max (map id_proposal ps) of Some m \<Rightarrow> add_one_js m | None \<Rightarrow> 1)
      else 1)"

definition handlePostSubmit :: "int \<Rightarrow> app_state \<Rightarrow> app_state" where
  "handlePostSubmit now st =
     (if \<not> isAIApproved st then st
      else
        let finalCategory =
              or_else (category_form (postForm st))
                (or_else_opt (Option.bind (aiAnalysis st) detectedCategory) CAT_OTHER);
            newProposal =
              \<lparr>id_proposal = newId (proposals st),
               title = title_form (postForm st),
               content = content_form (postForm st),
               category = finalCategory,
               status = Received,
               adminResponse = [],
               timestamp = now,
               signatures = []\<rparr>;
            updated = newProposal # proposals st
        in st\<lparr>proposals := updated,
              schoolProposals := Some updated,
              postForm := \<lparr>title_form = [], content_form = [], category_form = []\<rparr>,
              aiAnalysis := None,
              isAIApproved := False,
              isPostModalOpen := False\<rparr>)"

text \<open>
  \<^verbatim>\<open>handleAIAnalyze\<close> is an async function. \<open>handleAIAnalyze_start\<close> is its code up to
  the \<^verbatim>\<open>await\<close> (the \<^verbatim>\<open>alert\<close> of the validation branch changes no state);
  \<open>handleAIAnalyze_resume\<close> is its code after the \<^verbatim>\<open>await\<close>, run with the result of
  the call; \<open>settle\<close> is the moment the promise of the \<open>k\<close>-th pending call settles.
\<close>

definition handleAIAnalyze_start :: "app_state \<Rightarrow> app_state" where
  "handleAIAnalyze_start st =
     (if title_form (postForm st) = [] \<or> content_form (postForm st) = [] then st
      else st\<lparr>aiAnalysis := Some \<lparr>advice = [], loading = True,
                                   detectedCategory = None, detectedTags = None\<rparr>,
              isAIApproved := False,
              inFlight := inFlight st @ [(title_form (postForm st), content_form (postForm st))]\<rparr>)"

text \<open>The two default advisories of lines 276 and 277 (check done, no problem; the
  content needs changes, see the guidelines).\<close>

definition ADVICE_OK :: jsstring where
  "ADVICE_OK =
     [0x30C1, 0x30A7, 0x30C3, 0x30AF, 0x304C, 0x5B8C, 0x4E86, 0x3057, 0x307E, 0x3057,
      0x305F, 0x3002, 0x554F, 0x984C, 0x3042, 0x308A, 0x307E, 0x305B, 0x3093, 0x3002]"

definition ADVICE_REVISE :: jsstring where
  "ADVICE_REVISE =
     [0x5185, 0x5BB9, 0x306B, 0x4FEE, 0x6B63, 0x304C, 0x5FC5, 0x8981, 0x306A, 0x70B9,
      0x304C, 0x898B, 0x3064, 0x304B, 0x308A, 0x307E, 0x3057, 0x305F, 0x3002, 0x30AC,
      0x30A4, 0x30C9, 0x30E9, 0x30A4, 0x30F3, 0x306B, 0x6CBF, 0x3063, 0x3066, 0x898B,
      0x76F4, 0x3057, 0x3066, 0x304F, 0x3060, 0x3055, 0x3044, 0x3002]"

definition handleAIAnalyze_resume :: "AIAnalysisResult \<Rightarrow> app_state \<Rightarrow> app_state" where
  "handleAIAnalyze_resume result st =
     (let displayAdvice =
            or_else_opt (advice_res result)
              (if isAppropriate result then ADVICE_OK else ADVICE_REVISE);
          st1 = st\<lparr>aiAnalysis := Some \<lparr>advice = displayAdvice, loading = False,
                                       detectedCategory = Some (category_res result),
                                       detectedTags = Some (tags result)\<rparr>,
                  isAIApproved := isAppropriate result\<rparr>
      in if isAppropriate result
         then st1\<lparr>postForm :=
                (let prev = postForm st1
                 in prev\<lparr>title_form := or_else_opt (refinedTitle result) (title_form prev),
                         content_form := or_else_opt (refinedContent result) (content_form prev),
                         category_form := category_res result\<rparr>)\<rparr>
         else st1)"

definition settle ::
  "(jsstring \<Rightarrow> jsstring \<Rightarrow> genai_outcome) \<Rightarrow> (jsstring \<Rightarrow> AIAnalysisResult option) \<Rightarrow>
   nat \<Rightarrow> app_state \<Rightarrow> app_state" where
  "settle generateContent JSON_parse k st =
     (if k < length (inFlight st)
      then handleAIAnalyze_resume
             (analyzeProposal generateContent JSON_parse
                (fst (inFlight st ! k)) (snd (inFlight st ! k)))
             (st\<lparr>inFlight := splice_js k 1 (inFlight st)\<rparr>)
      else st)"

text \<open>The events of the gate, and a run of the gate over a list of them.\<close>

datatype event =
    InputChange field jsstring
  | PostSubmit int
  | AIAnalyze
  | Settle "jsstring \<Rightarrow> jsstring \<Rightarrow> genai_outcome" "jsstring \<Rightarrow> AIAnalysisResult option" nat

fun step :: "event \<Rightarrow> app_state \<Rightarrow> app_state" where
  "step (InputChange f v) st = handleInputChange f v st"
| "step (PostSubmit now) st = handlePostSubmit now st"
| "step AIAnalyze st = handleAIAnalyze_start st"
| "step (Settle g p k) st = settle g p k st"

fun run :: "event list \<Rightarrow> app_state \<Rightarrow> app_state" where
  "run [] st = st"
| "run (e # es) st = run es (step e st)"

text \<open>An event approves when it settles a pending check with a verdict that is
  appropriate.\<close>

fun approving :: "event \<Rightarrow> app_state \<Rightarrow> bool" where
  "approving (Settle g p k) st =
     (k < length (inFlight st) \<and>
      isAppropriate (analyzeProposal g p (fst (inFlight st ! k)) (snd (inFlight st ! k))))"
| "approving (InputChange f v) st = False"
| "approving (PostSubmit now) st = False"
| "approving AIAnalyze st = False"

fun no_approval :: "event list \<Rightarrow> app_state \<Rightarrow> bool" where
  "no_approval [] st = True"
| "no_approval (e # es) st = (\<not> approving e st \<and> no_approval es (step e st))"

section \<open>View engine (src/App.tsx, lines 355 to 381)\<close>

text \<open>
  \<^verbatim>\<open>Array.prototype.sort(comparefn)\<close>. For a comparator that is consistent, the
  language (since ECMAScript 2019) fixes the result: the elements in ascending order of
  the comparator, those that compare equal in their original order. Insertion from the
  right, each element put before the first one it does not exceed, computes it.
\<close>

fun insert_js :: "('a \<Rightarrow> 'a \<Rightarrow> int) \<Rightarrow> 'a \<Rightarrow> 'a list \<Rightarrow> 'a list" where
  "insert_js cmp x [] = [x]"
| "insert_js cmp x (y # ys) =
     (if cmp x y \<le> 0 then x # y # ys else y # insert_js cmp x ys)"

definition sort_js :: "('a \<Rightarrow> 'a \<Rightarrow> int) \<Rightarrow> 'a list \<Rightarrow> 'a list" where
  "sort_js cmp xs = foldr (insert_js cmp) xs []"

text \<open>\<^verbatim>\<open>s.includes(sub)\<close>: \<open>sub\<close> occurs in \<open>s\<close> as a contiguous run.\<close>

fun startsWith :: "'a list \<Rightarrow> 'a list \<Rightarrow> bool" where
  "startsWith s [] = True"
| "startsWith [] (c # sub) = False"
| "startsWith (d # s) (c # sub) = (d = c \<and> startsWith s sub)"

fun includes_js :: "'a list \<Rightarrow> 'a list \<Rightarrow> bool" where
  "includes_js [] sub = (sub = [])"
| "includes_js (d # s) sub = (startsWith (d # s) sub \<or> includes_js s sub)"

datatype sortOrder = Newest | BySignatures

text \<open>
  The two filters of \<^verbatim>\<open>filteredProposals\<close> (lines 356 to 363). \<^verbatim>\<open>toLowerCase\<close> is
  a parameter: the Unicode lower-casing of the platform.
\<close>

definition selected ::
  "(jsstring \<Rightarrow> jsstring) \<Rightarrow> jsstring \<Rightarrow> jsstring \<Rightarrow> Proposal list \<Rightarrow> Proposal list" where
  "selected toLowerCase categoryFilter searchTerm ps =
     (let res = ps;
          res = (if categoryFilter \<noteq> ascii ''all''
                 then filter (\<lambda>p. category p = categoryFilter) res else res);
          res = (if searchTerm \<noteq> []
                 then (let lower = toLowerCase searchTerm
                       in filter (\<lambda>p. includes_js (toLowerCase (title p)) lower \<or>
                                      includes_js (toLowerCase (content p)) lower) res)
                 else res)
      in res)"

definition filteredProposals ::
  "(jsstring \<Rightarrow> jsstring) \<Rightarrow> jsstring \<Rightarrow> jsstring \<Rightarrow> sortOrder \<Rightarrow> Proposal list \<Rightarrow>
   Proposal list" where
  "filteredProposals toLowerCase categoryFilter searchTerm order ps =
     (let res = selected toLowerCase categoryFilter searchTerm ps
      in if order = Newest
         then sort_js (\<lambda>a b. timestamp b - timestamp a) res
         else sort_js (\<lambda>a b. int (length (signatures b)) - int (length (signatures a))) res)"

subsection \<open>Tags\<close>

text \<open>
  The class \<^verbatim>\<open>\s\<close> of a regular expression without the \<^verbatim>\<open>u\<close> flag: the white space
  and line terminator code points of the language.
\<close>

definition isSpace :: "16 word \<Rightarrow> bool" where
  "isSpace c =
     (c \<in> {0x0009, 0x000A, 0x000B, 0x000C, 0x000D, 0x0020, 0x00A0, 0x1680,
            0x2028, 0x2029, 0x202F, 0x205F, 0x3000, 0xFEFF}
      \<or> (0x2000 \<le> c \<and> c \<le> 0x200A))"

text \<open>The class \<^verbatim>\<open>[#...]\<close> of line 375: number sign and full-width number sign.\<close>

definition isMarker :: "16 word \<Rightarrow> bool" where
  "isMarker c = (c = 0x0023 \<or> c = 0xFF03)"

text \<open>The negated class of line 375: neither \<^verbatim>\<open>\s\<close> nor the ideographic space.\<close>

definition nonSpace :: "16 word \<Rightarrow> bool" where
  "nonSpace c = (\<not> isSpace c \<and> c \<noteq> 0x3000)"

text \<open>
  All matches of the expression of line 375 with the \<^verbatim>\<open>g\<close> flag, from left to
  right: at the first marker that a member of the negated class follows, the match
  takes every following member of the class (the quantifier is greedy and nothing
  follows it), and the search goes on behind the match.
\<close>

function match_all :: "jsstring \<Rightarrow> jsstring list" where
  "match_all [] = []"
| "match_all (c # cs) =
     (if isMarker c \<and> cs \<noteq> [] \<and> nonSpace (hd cs)
      then (c # takeWhile nonSpace cs) # match_all (dropWhile nonSpace cs)
      else match_all cs)"
  by pat_completeness auto
termination
  by (relation "measure length") (auto simp: length_dropWhile_le less_Suc_eq_le)

text \<open>\<^verbatim>\<open>String.prototype.match\<close> with a global expression: \<^verbatim>\<open>null\<close> without a
  match.\<close>

definition match_js :: "jsstring \<Rightarrow> jsstring list option" where
  "match_js s = (case match_all s of [] \<Rightarrow> None | t # ts \<Rightarrow> Some (t # ts))"

text \<open>
  \<^verbatim>\<open>counts[t] = (counts[t] || 0) + 1\<close> on an object whose keys begin with a marker:
  none of them is an array index or a property of \<^verbatim>\<open>Object.prototype\<close>, so
  \<^verbatim>\<open>Object.entries\<close> lists them in the order of their first insertion.
\<close>

fun incr :: "jsstring \<Rightarrow> (jsstring \<times> int) list \<Rightarrow> (jsstring \<times> int) list" where
  "incr t [] = [(t, 1)]"
| "incr t ((k, n) # counts) =
     (if k = t then (k, (if n \<noteq> 0 then n else 0) + 1) # counts
      else (k, n) # incr t counts)"

definition count_tags :: "Proposal list \<Rightarrow> (jsstring \<times> int) list" where
  "count_tags ps =
     fold (\<lambda>p counts. case match_js (content p) of
                          None \<Rightarrow> counts
                        | Some ts \<Rightarrow> fold incr ts counts) ps []"

definition trendingTags :: "Proposal list \<Rightarrow> (jsstring \<times> int) list" where
  "trendingTags ps = take 5 (sort_js (\<lambda>a b. snd b - snd a) (count_tags ps))"

subsection \<open>The tag ranking in the words of the specification\<close>

text \<open>
  The words of a text are its maximal runs of characters that are not white space. A
  word holds a tag token when it has a marker that is not its last character; the token
  runs from the first such marker to the end of the word.
\<close>

function spec_words :: "jsstring \<Rightarrow> jsstring list" where
  "spec_words [] = []"
| "spec_words (c # cs) =
     (if nonSpace c
      then (c # takeWhile nonSpace cs) # spec_words (dropWhile nonSpace cs)
      else spec_words cs)"
  by pat_completeness auto
termination
  by (relation "measure length") (auto simp: length_dropWhile_le less_Suc_eq_le)

definition spec_token :: "jsstring \<Rightarrow> jsstring list" where
  "spec_token w =
     (let r = dropWhile (\<lambda>c. \<not> isMarker c) w in if 2 \<le> length r then [r] else [])"

definition spec_tokens :: "jsstring \<Rightarrow> jsstring list" where
  "spec_tokens s = concat (map spec_token (spec_words s))"

text \<open>Every token with the number of its occurrences, in the order the tokens are
  first seen.\<close>

definition spec_counts :: "jsstring list \<Rightarrow> (jsstring \<times> int) list" where
  "spec_counts ts = map (\<lambda>t. (t, int (count_list ts t))) (rev (remdups (rev ts)))"

text \<open>The top five by descending count, ties in first-seen order.\<close>

definition spec_trendingTags :: "Proposal list \<Rightarrow> (jsstring \<times> int) list" where
  "spec_trendingTags ps =
     take 5 (sort_key (\<lambda>e. - snd e) (spec_counts (concat (map (\<lambda>p. spec_tokens (content p)) ps))))"

section \<open>Start of a session (src/App.tsx, lines 100 to 139)\<close>

text \<open>
  The seed data. The arguments are the four readings of the clock, in the order of
  the source (\<^verbatim>\<open>new Date()\<close>, \<^verbatim>\<open>Date.now()\<close>, \<^verbatim>\<open>new Date()\<close>, \<^verbatim>\<open>Date.now()\<close>). The
  texts are those of lines 108 to 132, as code units.
\<close>

definition seeds :: "int \<Rightarrow> int \<Rightarrow> int \<Rightarrow> int \<Rightarrow> Proposal list" where
  "seeds t1 t2 t3 t4 =
     [\<lparr>id_proposal = 1,
       title = [0x9774, 0x4E0B, 0x306E, 0x8272, 0x306B, 0x30B0, 0x30EC, 0x30FC, 0x3092,
                0x8FFD, 0x52A0, 0x3057, 0x3066, 0x6B32, 0x3057, 0x3044],
       content = [0x9774, 0x4E0B, 0x306E, 0x8272, 0x306F, 0x9ED2, 0x30FB, 0x767D, 0x30FB,
                  0x7D3A, 0x306E, 0x307F, 0x3067, 0x3059, 0x304C, 0x3001, 0x53CB, 0x9054,
                  0x306E, 0x5B66, 0x6821, 0x3067, 0x306F, 0x30B0, 0x30EC, 0x30FC, 0x3082,
                  0x826F, 0x3044, 0x305D, 0x3046, 0x3067, 0x3059, 0x3002, 0x306A, 0x305C,
                  0x30B0, 0x30EC, 0x30FC, 0x304C, 0x30C0, 0x30E1, 0x306A, 0x306E, 0x304B,
                  0x308F, 0x304B, 0x308A, 0x307E, 0x305B, 0x3093, 0x3002, 0x30B0, 0x30EC,
                  0x30FC, 0x306E, 0x8FFD, 0x52A0, 0x3092, 0x304A, 0x9858, 0x3044, 0x3057,
                  0x307E, 0x3059, 0x3002, 0x0020, 0x0023, 0x9774, 0x4E0B],
       category = [0x6821, 0x5247],
       status = Coordinating,
       adminResponse = [0x751F, 0x5F92, 0x7DCF, 0x4F1A, 0x3067, 0x306E, 0x8B70, 0x8AD6,
                        0x3092, 0x7D4C, 0x3066, 0x3001, 0x8077, 0x54E1, 0x4F1A, 0x8B70,
                        0x306B, 0x63D0, 0x6848, 0x4E2D, 0x3067, 0x3059, 0x3002],
       timestamp = t1,
       signatures = []\<rparr>,
      \<lparr>id_proposal = 2,
       title = [0x98DF, 0x5802, 0x306E, 0x30E1, 0x30CB, 0x30E5, 0x30FC, 0x306B, 0x9EBA,
                0x985E, 0x3092, 0x8FFD, 0x52A0, 0x3057, 0x3066, 0x307B, 0x3057, 0x3044],
       content = [0x4ECA, 0x306F, 0x30D1, 0x30F3, 0x3068, 0x304A, 0x306B, 0x304E, 0x308A,
                  0x3057, 0x304B, 0x3042, 0x308A, 0x307E, 0x305B, 0x3093, 0x3002, 0x6E29,
                  0x304B, 0x3044, 0x9EBA, 0x985E, 0xFF08, 0x3046, 0x3069, 0x3093, 0x3084,
                  0x30E9, 0x30FC, 0x30E1, 0x30F3, 0xFF09, 0x304C, 0x98DF, 0x3079, 0x305F,
                  0x3044, 0x3067, 0x3059, 0x3002, 0x0020, 0x0023, 0x98DF, 0x5802, 0x0020,
                  0x0023, 0x30E9, 0x30F3, 0x30C1, 0x0020, 0x0023, 0x6539, 0x5584, 0x5E0C,
                  0x671B],
       category = [0x8A2D, 0x5099, 0x30FB, 0x74B0, 0x5883],
       status = Received,
       adminResponse = [],
       timestamp = t2 - 86400000,
       signatures = [\<lparr>userId = ascii ''demo'',
                       userName = [0x30C7, 0x30E2, 0x592A, 0x90CE],
                       timestamp_sig = t3\<rparr>]\<rparr>,
      \<lparr>id_proposal = 3,
       title = [0x56F3, 0x66F8, 0x5BA4, 0x306E, 0x958B, 0x9928, 0x6642, 0x9593, 0x3092,
                0x5EF6, 0x9577, 0x3057, 0x3066, 0x304F, 0x3060, 0x3055, 0x3044],
       content = [0x653E, 0x8AB2, 0x5F8C, 0x3001, 0x90E8, 0x6D3B, 0x306E, 0x524D, 0x306B,
                  0x3082, 0x3046, 0x5C11, 0x3057, 0x52C9, 0x5F37, 0x3057, 0x305F, 0x3044,
                  0x306E, 0x3067, 0x3059, 0x304C, 0x3001, 0x3059, 0x3050, 0x306B, 0x9589,
                  0x307E, 0x3063, 0x3066, 0x3057, 0x307E, 0x3044, 0x307E, 0x3059, 0x3002,
                  0x3042, 0x3068, 0x0033, 0x0030, 0x5206, 0x5EF6, 0x9577, 0x3067, 0x304D,
                  0x307E, 0x305B, 0x3093, 0x304B, 0xFF1F],
       category = [0x8A2D, 0x5099, 0x30FB, 0x74B0, 0x5883],
       status = Resolved,
       adminResponse = [0x8A66, 0x9A13, 0x671F, 0x9593, 0x4E2D, 0x306E, 0x307F, 0x3001,
                        0x0031, 0x0038, 0x003A, 0x0030, 0x0030, 0x307E, 0x3067, 0x5EF6,
                        0x9577, 0x3059, 0x308B, 0x3053, 0x3068, 0x304C, 0x6C7A, 0x5B9A,
                        0x3057, 0x307E, 0x3057, 0x305F, 0x3002],
       timestamp = t4 - 172800000,
       signatures = []\<rparr>]"

text \<open>The initial values of the hooks, over what \<^verbatim>\<open>localStorage\<close> holds.\<close>

definition init :: "Proposal list option \<Rightarrow> app_state" where
  "init stored =
     \<lparr>user = None, view = Home, proposals = [],
      postForm = \<lparr>title_form = [], content_form = [], category_form = []\<rparr>,
      aiAnalysis = None, isAIApproved = False, isPostModalOpen = False,
      schoolProposals = stored, inFlight = []\<rparr>"

text \<open>The effect run once after the first render.\<close>

definition mount :: "int \<Rightarrow> int \<Rightarrow> int \<Rightarrow> int \<Rightarrow> app_state \<Rightarrow> app_state" where
  "mount t1 t2 t3 t4 st =
     (case schoolProposals st of
        Some savedProposals \<Rightarrow> st\<lparr>proposals := savedProposals\<rparr>
      | None \<Rightarrow> st\<lparr>proposals := seeds t1 t2 t3 t4,
                   schoolProposals := Some (seeds t1 t2 t3 t4)\<rparr>)"

text \<open>
  The states a browser can be in: a first visit finds nothing stored; a later visit
  (or a reload) starts from what an earlier state stored; in between, the handlers run.
  Logging in and out sets \<open>user\<close>; navigation sets \<open>view\<close> and \<open>isPostModalOpen\<close>.
\<close>

inductive reachable :: "app_state \<Rightarrow> bool" where
  first_visit: "reachable (mount t1 t2 t3 t4 (init None))"
| reload: "reachable st \<Longrightarrow> reachable (mount t1 t2 t3 t4 (init (schoolProposals st)))"
| set_user: "reachable st \<Longrightarrow> reachable (st\<lparr>user := u\<rparr>)"
| set_view: "reachable st \<Longrightarrow> reachable (st\<lparr>view := v\<rparr>)"
| set_modal: "reachable st \<Longrightarrow> reachable (st\<lparr>isPostModalOpen := b\<rparr>)"
| gate: "reachable st \<Longrightarrow> reachable (step e st)"
| toggle: "reachable st \<Longrightarrow> reachable (toggleSignature confirmed now proposalId st)"
| admin: "reachable st \<Longrightarrow> reachable (updateAdminStatus proposalId newStatus response st)"

text \<open>No two signatures of a proposal carry the same \<open>userId\<close>.\<close>

definition unique_signers :: "Proposal list \<Rightarrow> bool" where
  "unique_signers ps = list_all (\<lambda>p. distinct (map userId (signatures p))) ps"

section \<open>Concrete inputs\<close>

text \<open>Three users, and a store that holds one proposal, number 5, which the first two
  have signed.\<close>

definition alice :: User where
  "alice = \<lparr>id_user = ascii ''alice@example.com'', name_user = ascii ''Alice'',
            role_user = Student, class_user = None, email_user = None\<rparr>"

definition bob :: User where
  "bob = \<lparr>id_user = ascii ''bob@example.com'', name_user = ascii ''Bob'',
          role_user = Student, class_user = None, email_user = None\<rparr>"

definition carol :: User where
  "carol = \<lparr>id_user = ascii ''admin'', name_user = ascii ''Carol'',
            role_user = Admin, class_user = None, email_user = None\<rparr>"

definition signed_by :: "User \<Rightarrow> int \<Rightarrow> Signature" where
  "signed_by u t = \<lparr>userId = id_user u, userName = name_user u, timestamp_sig = t\<rparr>"

definition proposal5 :: Proposal where
  "proposal5 = \<lparr>id_proposal = 5, title = ascii ''T'', content = ascii ''C'',
                category = CAT_OTHER, status = Received, adminResponse = [],
                timestamp = 1000, signatures = [signed_by alice 10, signed_by bob 20]\<rparr>"

definition state5 :: "User option \<Rightarrow> app_state" where
  "state5 who = (init (Some [proposal5]))\<lparr>user := who, proposals := [proposal5]\<rparr>"

text \<open>The state after a first visit, every reading of the clock being 0.\<close>

definition seed_state :: app_state where
  "seed_state = mount 0 0 0 0 (init None)"

text \<open>An approved draft over a given store.\<close>

definition approved_draft :: "Proposal list \<Rightarrow> app_state" where
  "approved_draft ps =
     (init (Some ps))\<lparr>proposals := ps,
        postForm := \<lparr>title_form = ascii ''T'', content_form = ascii ''C'', category_form = []\<rparr>,
        isAIApproved := True\<rparr>"

text \<open>A service that answers, parsers that read a rejection or an approval (with empty
  proposals for title and content) out of any answer, and a list of attempts to get a
  draft submitted without an approving check.\<close>

definition rejecting :: "jsstring \<Rightarrow> AIAnalysisResult option" where
  "rejecting text = Some \<lparr>isAppropriate = False, category_res = CAT_OTHER, tags = [],
       refinedTitle = None, refinedContent = None, advice_res = Some (ascii ''no'')\<rparr>"

definition accepting :: "jsstring \<Rightarrow> AIAnalysisResult option" where
  "accepting text = Some \<lparr>isAppropriate = True, category_res = CAT_OTHER, tags = [],
       refinedTitle = Some [], refinedContent = Some [], advice_res = Some (ascii ''ok'')\<rparr>"

definition replying :: "jsstring \<Rightarrow> jsstring \<Rightarrow> genai_outcome" where
  "replying t c = Replied (Some (ascii ''{}''))"

definition attempts :: "event list" where
  "attempts = [PostSubmit 60, AIAnalyze, PostSubmit 61, Settle replying rejecting 0, PostSubmit 62,
               InputChange Content (ascii ''C2''), AIAnalyze, Settle (\<lambda>t c. Failed) accepting 0,
               PostSubmit 63]"

text \<open>A draft "A", "B" is sent to the check; the title is changed to "X" while the
  check is pending.\<close>

definition racing :: app_state where
  "racing = run [InputChange Title (ascii ''A''), InputChange Content (ascii ''B''), AIAnalyze,
                 InputChange Title (ascii ''X'')] seed_state"

text \<open>After a first visit, Alice and then Bob sign proposal 2.\<close>

definition signed_twice :: app_state where
  "signed_twice =
     toggleSignature False 30 2 ((toggleSignature False 20 2 (seed_state\<lparr>user := Some alice\<rparr>))
       \<lparr>user := Some bob\<rparr>)"

text \<open>Two proposals with the contents of the tag example.\<close>

definition tagged_ab :: Proposal where
  "tagged_ab = proposal5\<lparr>id_proposal := 1, content := ascii ''#a #a #b''\<rparr>"

definition tagged_ac :: Proposal where
  "tagged_ac = proposal5\<lparr>id_proposal := 2, content := ascii ''#a #c''\<rparr>"

text \<open>A store whose only proposal has the id \<open>2 ^ 53\<close>, the first integer whose
  successor is not a double.\<close>

definition proposal_big :: Proposal where
  "proposal_big = proposal5\<lparr>id_proposal := 9007199254740992\<rparr>"

text \<open>
  An approved draft with an older check still pending: the draft "A", "B" is sent to
  the check; the content is changed to "B2", which takes the held analysis away and with
  it the mark that a check is running; the draft "A", "B2" is sent to a second check,
  which settles first and approves.
\<close>

definition approved_pending :: app_state where
  "approved_pending =
     run [InputChange Title (ascii ''A''), InputChange Content (ascii ''B''), AIAnalyze,
          InputChange Content (ascii ''B2''), AIAnalyze, Settle replying accepting 1]
       seed_state"

text \<open>Then the title of the approved draft is changed to "Y".\<close>

definition edited_pending :: app_state where
  "edited_pending = handleInputChange Title (ascii ''Y'') approved_pending"

section \<open>Notions used by the statements\<close>

text \<open>The greatest id of the collection, if there is one, is at least \<open>- 2 ^ 53\<close> and
  less than \<open>2 ^ 53\<close>: its successor is computed exactly.\<close>

definition exact_successor :: "Proposal list \<Rightarrow> bool" where
  "exact_successor ps =
     (case Math_max (map id_proposal ps) of
        None \<Rightarrow> True
      | Some m \<Rightarrow> - (2 ^ 53) \<le> m \<and> m < 2 ^ 53)"

text \<open>\<open>q\<close> is \<open>p\<close> but for its signatures, or but for its status and response.\<close>

definition only_signatures_differ :: "Proposal \<Rightarrow> Proposal \<Rightarrow> bool" where
  "only_signatures_differ p q = (q\<lparr>signatures := signatures p\<rparr> = p)"

definition only_status_response_differ :: "Proposal \<Rightarrow> Proposal \<Rightarrow> bool" where
  "only_status_response_differ p q =
     (q\<lparr>status := status p, adminResponse := adminResponse p\<rparr> = p)"

text \<open>The proposal at the head of the store after a submission.\<close>

definition created :: "int \<Rightarrow> app_state \<Rightarrow> Proposal" where
  "created now st = hd (proposals (handlePostSubmit now st))"

text \<open>The invariant covers the stored copy, which the next session starts from.\<close>

definition store_ok :: "app_state \<Rightarrow> bool" where
  "store_ok st =
     (unique_signers (proposals st) \<and>
      (case schoolProposals st of None \<Rightarrow> True | Some ps \<Rightarrow> unique_signers ps))"

section \<open>Properties of the endorsement list\<close>

lemma findIndex_neg_iff: "findIndex P xs < 0 \<longleftrightarrow> (\<forall>x\<in>set xs. \<not> P x)"
  by (induction xs) (auto simp: Let_def)

lemma findIndex_ge_minus1: "- 1 \<le> findIndex P xs"
  by (induction xs) (auto simp: Let_def)

lemma findIndex_append_new:
  "\<forall>x\<in>set xs. \<not> P x \<Longrightarrow> P y \<Longrightarrow> findIndex P (xs @ [y]) = int (length xs)"
  by (induction xs) (auto simp: Let_def)

lemma splice_first_match_distinct:
  "distinct (map f xs) \<Longrightarrow> \<exists>x\<in>set xs. f x = k \<Longrightarrow>
   splice_js (nat (findIndex (\<lambda>x. f x = k) xs)) 1 xs = filter (\<lambda>x. f x \<noteq> k) xs"
proof (induction xs)
  case Nil
  then show ?case by simp
next
  case (Cons x xs)
  show ?case
  proof (cases "f x = k")
    case True
    with Cons.prems(1) have "k \<notin> f ` set xs" by simp
    then have "\<forall>y\<in>set xs. f y \<noteq> k" by blast
    then have "filter (\<lambda>x. f x \<noteq> k) xs = xs" by (simp add: filter_id_conv)
    with True show ?thesis by (simp add: splice_js_def)
  next
    case False
    with Cons.prems have ex: "\<exists>x\<in>set xs. f x = k" and d: "distinct (map f xs)" by auto
    from ex have nn: "\<not> findIndex (\<lambda>x. f x = k) xs < 0" by (simp add: findIndex_neg_iff)
    from Cons.IH [OF d ex] nn False show ?thesis
      by (simp add: splice_js_def Let_def nat_add_distrib)
  qed
qed

lemma toggle_one_twice_unsigned:
  assumes "id_user u \<notin> userId ` set (signatures p)"
  shows "toggle_one u t2 i (toggle_one u t1 i p) = p"
proof (cases "id_proposal p = i")
  case False
  then show ?thesis by (simp add: toggle_one_def)
next
  case True
  let ?P = "\<lambda>s. userId s = id_user u"
  let ?new = "\<lparr>userId = id_user u, userName = name_user u, timestamp_sig = t1\<rparr>"
  from assms have none: "\<forall>s\<in>set (signatures p). \<not> ?P s" by (auto simp: image_iff)
  then have neg: "findIndex ?P (signatures p) < 0" by (simp add: findIndex_neg_iff)
  have idx: "findIndex ?P (signatures p @ [?new]) = int (length (signatures p))"
    using none by (intro findIndex_append_new) auto
  show ?thesis using True neg idx
    by (simp add: toggle_one_def Let_def splice_js_def)
qed

lemma toggle_one_twice_signed:
  assumes "distinct (map userId (signatures p))"
      and "id_user u \<in> userId ` set (signatures p)" and "id_proposal p = i"
  shows "toggle_one u t2 i (toggle_one u t1 i p) =
         p\<lparr>signatures := filter (\<lambda>s. userId s \<noteq> id_user u) (signatures p) @
              [\<lparr>userId = id_user u, userName = name_user u, timestamp_sig = t2\<rparr>]\<rparr>"
proof -
  let ?P = "\<lambda>s. userId s = id_user u"
  from assms(2) have ex: "\<exists>s\<in>set (signatures p). userId s = id_user u" by (auto simp: image_iff)
  then have nn: "\<not> findIndex ?P (signatures p) < 0" by (simp add: findIndex_neg_iff)
  have sp: "splice_js (nat (findIndex ?P (signatures p))) 1 (signatures p) =
            filter (\<lambda>s. userId s \<noteq> id_user u) (signatures p)"
    by (rule splice_first_match_distinct [OF assms(1) ex])
  have neg: "findIndex ?P (filter (\<lambda>s. userId s \<noteq> id_user u) (signatures p)) < 0"
    by (simp add: findIndex_neg_iff)
  show ?thesis using assms(3) nn sp neg
    by (simp add: toggle_one_def Let_def)
qed

lemmas ex_defs = alice_def bob_def carol_def signed_by_def proposal5_def state5_def init_def ascii_def

lemma toggle_one_other: "id_proposal p \<noteq> i \<Longrightarrow> toggle_one u t i p = p"
  by (simp add: toggle_one_def)

lemma toggle_one_id: "id_proposal (toggle_one u t i p) = id_proposal p"
  by (simp add: toggle_one_def Let_def)

lemma toggleSignature_proposals:
  "user st = Some u \<Longrightarrow>
   proposals (toggleSignature c t i st) = map (toggle_one u t i) (proposals st)"
  by (simp add: toggleSignature_def Let_def)

lemma toggleSignature_user: "user (toggleSignature c t i st) = user st"
  by (simp add: toggleSignature_def Let_def split: option.splits)

lemma unique_signers_iff:
  "unique_signers ps \<longleftrightarrow> (\<forall>p\<in>set ps. distinct (map userId (signatures p)))"
  by (simp add: unique_signers_def list_all_iff)

text \<open>
  Claim C1, as amended. Two calls of \<open>toggleSignature\<close> in a row by the same user on
  the same proposal id give every proposal back as it was when the user had not signed
  it. When the user had signed it (and no identity has signed a proposal twice), the two
  calls remove the user's signature and append a new one at the end of the list, with
  the time of the second call: the same identities have signed, but the list is not the
  original one.
\<close>

theorem toggleSignature_twice:
  assumes "user st = Some u"
  shows "((\<forall>p\<in>set (proposals st). id_proposal p = i \<longrightarrow> id_user u \<notin> userId ` set (signatures p)) \<longrightarrow>
            proposals (toggleSignature c2 t2 i (toggleSignature c1 t1 i st)) = proposals st)
       \<and> (unique_signers (proposals st) \<longrightarrow>
            proposals (toggleSignature c2 t2 i (toggleSignature c1 t1 i st)) =
              map (\<lambda>p. if id_proposal p = i \<and> id_user u \<in> userId ` set (signatures p)
                       then p\<lparr>signatures :=
                               filter (\<lambda>s. userId s \<noteq> id_user u) (signatures p) @
                               [\<lparr>userId = id_user u, userName = name_user u, timestamp_sig = t2\<rparr>]\<rparr>
                       else p) (proposals st))
       \<and> (unique_signers (proposals st) \<longrightarrow>
            map (\<lambda>p. userId ` set (signatures p))
              (proposals (toggleSignature c2 t2 i (toggleSignature c1 t1 i st))) =
            map (\<lambda>p. userId ` set (signatures p)) (proposals st))"
proof -
  have twice: "proposals (toggleSignature c2 t2 i (toggleSignature c1 t1 i st)) =
               map (\<lambda>p. toggle_one u t2 i (toggle_one u t1 i p)) (proposals st)"
    using assms by (simp add: toggleSignature_proposals toggleSignature_user)
  have a: "proposals (toggleSignature c2 t2 i (toggleSignature c1 t1 i st)) = proposals st"
    if h: "\<forall>p\<in>set (proposals st). id_proposal p = i \<longrightarrow> id_user u \<notin> userId ` set (signatures p)"
  proof -
    have "toggle_one u t2 i (toggle_one u t1 i p) = p" if "p \<in> set (proposals st)" for p
    proof (cases "id_proposal p = i")
      case True
      with h that show ?thesis by (simp add: toggle_one_twice_unsigned)
    next
      case False
      then show ?thesis by (simp add: toggle_one_other)
    qed
    then show ?thesis unfolding twice by (simp add: map_idI)
  qed
  have b: "proposals (toggleSignature c2 t2 i (toggleSignature c1 t1 i st)) =
              map (\<lambda>p. if id_proposal p = i \<and> id_user u \<in> userId ` set (signatures p)
                       then p\<lparr>signatures :=
                               filter (\<lambda>s. userId s \<noteq> id_user u) (signatures p) @
                               [\<lparr>userId = id_user u, userName = name_user u, timestamp_sig = t2\<rparr>]\<rparr>
                       else p) (proposals st)"
    if h: "unique_signers (proposals st)"
    unfolding twice
  proof (rule map_cong [OF refl])
    fix p assume p: "p \<in> set (proposals st)"
    with h have d: "distinct (map userId (signatures p))" by (simp add: unique_signers_iff)
    show "toggle_one u t2 i (toggle_one u t1 i p) =
          (if id_proposal p = i \<and> id_user u \<in> userId ` set (signatures p)
           then p\<lparr>signatures :=
                   filter (\<lambda>s. userId s \<noteq> id_user u) (signatures p) @
                   [\<lparr>userId = id_user u, userName = name_user u, timestamp_sig = t2\<rparr>]\<rparr>
           else p)"
    proof (cases "id_proposal p = i")
      case False
      then show ?thesis by (simp add: toggle_one_other)
    next
      case True
      show ?thesis
      proof (cases "id_user u \<in> userId ` set (signatures p)")
        case True
        with \<open>id_proposal p = i\<close> d show ?thesis by (simp add: toggle_one_twice_signed)
      next
        case False
        then show ?thesis by (simp add: toggle_one_twice_unsigned)
      qed
    qed
  qed
  have c: "map (\<lambda>p. userId ` set (signatures p))
              (proposals (toggleSignature c2 t2 i (toggleSignature c1 t1 i st))) =
            map (\<lambda>p. userId ` set (signatures p)) (proposals st)"
    if h: "unique_signers (proposals st)"
    unfolding b [OF h] by (auto simp: image_iff)
  from a b c show ?thesis by blast
qed

text \<open>
  Claim C1 as stated fails: Alice signed proposal 5 before Bob; after she toggles twice,
  her signature stands behind Bob's and carries the time 40 instead of 10.
\<close>

theorem toggleSignature_twice_counterexample:
  "map signatures (proposals (toggleSignature False 40 5 (toggleSignature False 30 5 (state5 (Some alice)))))
     \<noteq> map signatures (proposals (state5 (Some alice)))"
  by (simp add: toggleSignature_def toggle_one_def splice_js_def Let_def ex_defs)

theorem toggleSignature_twice_witness:
  "user (state5 (Some carol)) = Some carol
   \<and> proposals (state5 (Some carol)) = [proposal5]
   \<and> id_user carol \<notin> userId ` set (signatures proposal5)
   \<and> proposals (toggleSignature False 40 5 (toggleSignature False 30 5 (state5 (Some carol)))) = [proposal5]
   \<and> user (state5 (Some alice)) = Some alice
   \<and> unique_signers (proposals (state5 (Some alice)))
   \<and> proposals (toggleSignature False 40 5 (toggleSignature False 30 5 (state5 (Some alice)))) =
       [proposal5\<lparr>signatures := [signed_by bob 20, signed_by alice 40]\<rparr>]"
proof -
  have u1: "user (state5 (Some carol)) = Some carol" by (simp add: state5_def)
  have h1: "\<forall>p\<in>set (proposals (state5 (Some carol))). id_proposal p = 5 \<longrightarrow> id_user carol \<notin> userId ` set (signatures p)"
    by (simp add: ex_defs)
  have u2: "user (state5 (Some alice)) = Some alice" by (simp add: state5_def)
  have h2: "unique_signers (proposals (state5 (Some alice)))"
    by (simp add: unique_signers_def ex_defs)
  have p: "proposals (state5 who) = [proposal5]" for who by (simp add: state5_def)
  from toggleSignature_twice [OF u1, of 5 False 40 False 30] h1
  have r1: "proposals (toggleSignature False 40 5 (toggleSignature False 30 5 (state5 (Some carol)))) = [proposal5]"
    by (simp add: p)
  from toggleSignature_twice [OF u2, of 5 False 40 False 30] h2
  have r2: "proposals (toggleSignature False 40 5 (toggleSignature False 30 5 (state5 (Some alice)))) =
       [proposal5\<lparr>signatures := [signed_by bob 20, signed_by alice 40]\<rparr>]"
    by (simp add: p) (simp add: ex_defs)
  have n1: "id_user carol \<notin> userId ` set (signatures proposal5)" by (simp add: ex_defs)
  from u1 p n1 r1 u2 h2 r2 show ?thesis by blast
qed

section \<open>Properties of the store\<close>

lemma proposals_seed_state: "proposals seed_state = seeds 0 0 0 0"
  by (simp add: seed_state_def mount_def init_def)

lemma stored_seed_state: "schoolProposals seed_state = Some (seeds 0 0 0 0)"
  by (simp add: seed_state_def mount_def init_def)

lemma ids_seeds: "map id_proposal (seeds t1 t2 t3 t4) = [1, 2, 3]"
  by (simp add: seeds_def)

lemma updateAdminStatus_proposals:
  "proposals (updateAdminStatus i s r st) =
   map (\<lambda>p. if id_proposal p = i then p\<lparr>status := s, adminResponse := r\<rparr> else p) (proposals st)"
  by (simp add: updateAdminStatus_def Let_def)

lemma status_map_absent:
  assumes "i \<notin> id_proposal ` set ps"
  shows "map (\<lambda>p. if id_proposal p = i then p\<lparr>status := s, adminResponse := r\<rparr> else p) ps = ps"
  using assms by (intro map_idI) (auto simp: image_iff)

text \<open>
  Claim C7. \<open>updateAdminStatus\<close> with an id that no proposal of the collection has
  leaves the collection as it is; the state changes in nothing but the stored copy, which
  is written again with the same collection. The handler has no failing branch.
\<close>

theorem updateAdminStatus_absent:
  assumes "proposalId \<notin> id_proposal ` set (proposals st)"
  shows "proposals (updateAdminStatus proposalId newStatus response st) = proposals st
       \<and> updateAdminStatus proposalId newStatus response st =
           st\<lparr>schoolProposals := Some (proposals st)\<rparr>"
  using status_map_absent [OF assms] by (simp add: updateAdminStatus_def Let_def)

theorem updateAdminStatus_absent_witness:
  "5 \<notin> set (map id_proposal (proposals seed_state))
   \<and> proposals (updateAdminStatus 5 Coordinating (ascii ''in discussion'') seed_state) = proposals seed_state
   \<and> updateAdminStatus 5 Coordinating (ascii ''in discussion'') seed_state = seed_state"
proof -
  have a: "5 \<notin> id_proposal ` set (proposals seed_state)"
    unfolding proposals_seed_state using ids_seeds [of 0 0 0 0] by (simp flip: set_map)
  have e: "seed_state\<lparr>schoolProposals := Some (proposals seed_state)\<rparr> = seed_state"
    by (simp add: proposals_seed_state) (simp add: seed_state_def mount_def init_def)
  from updateAdminStatus_absent [OF a, of Coordinating "ascii ''in discussion''"] a e
  show ?thesis by simp
qed

lemma toggleSignature_proposals_cases:
  "proposals (toggleSignature c t i st) =
   (case user st of None \<Rightarrow> proposals st | Some u \<Rightarrow> map (toggle_one u t i) (proposals st))"
  by (simp add: toggleSignature_def Let_def split: option.splits)

lemma toggle_one_frame:
  "(if id_proposal p = i then only_signatures_differ p (toggle_one u t i p) else toggle_one u t i p = p)"
  by (simp add: toggle_one_def only_signatures_differ_def Let_def)

text \<open>
  Claim C10. \<open>toggleSignature\<close> and \<open>updateAdminStatus\<close> with target id \<open>i\<close> keep the
  length and the order of the collection; a proposal with another id is unchanged; a
  proposal with id \<open>i\<close> differs at most in its signatures (toggle), or in its status and
  response (status update). With an id that no proposal has, both leave the collection
  unchanged.
\<close>

theorem store_frame:
  "list_all2 (\<lambda>p q. if id_proposal p = i then only_signatures_differ p q else q = p)
     (proposals st) (proposals (toggleSignature confirmed now i st))
   \<and> list_all2 (\<lambda>p q. if id_proposal p = i then only_status_response_differ p q else q = p)
     (proposals st) (proposals (updateAdminStatus i newStatus response st))
   \<and> (i \<notin> id_proposal ` set (proposals st) \<longrightarrow>
        proposals (toggleSignature confirmed now i st) = proposals st
        \<and> proposals (updateAdminStatus i newStatus response st) = proposals st)"
proof -
  have t: "list_all2 (\<lambda>p q. if id_proposal p = i then only_signatures_differ p q else q = p)
     (proposals st) (proposals (toggleSignature confirmed now i st))"
  proof (cases "user st")
    case None
    then show ?thesis
      by (simp add: toggleSignature_proposals_cases list_all2_same only_signatures_differ_def)
  next
    case (Some u)
    then show ?thesis
      using toggle_one_frame [of _ i u now]
      by (simp add: toggleSignature_proposals_cases list_all2_map2 list_all2_same)
  qed
  have s: "list_all2 (\<lambda>p q. if id_proposal p = i then only_status_response_differ p q else q = p)
     (proposals st) (proposals (updateAdminStatus i newStatus response st))"
    by (simp add: updateAdminStatus_proposals list_all2_map2 list_all2_same
        only_status_response_differ_def)
  have n: "proposals (toggleSignature confirmed now i st) = proposals st
        \<and> proposals (updateAdminStatus i newStatus response st) = proposals st"
    if h: "i \<notin> id_proposal ` set (proposals st)"
  proof -
    from h have ne: "\<forall>p\<in>set (proposals st). id_proposal p \<noteq> i" by (auto simp: image_iff)
    then have "map (toggle_one u now i) (proposals st) = proposals st" for u
      by (intro map_idI) (simp add: toggle_one_other)
    then have "proposals (toggleSignature confirmed now i st) = proposals st"
      by (simp add: toggleSignature_proposals_cases split: option.splits)
    with status_map_absent [OF h] show ?thesis by (simp add: updateAdminStatus_proposals)
  qed
  from t s n show ?thesis by blast
qed

theorem store_frame_witness:
  "9 \<notin> set (map id_proposal (proposals (state5 (Some carol))))
   \<and> proposals (toggleSignature False 30 9 (state5 (Some carol))) = [proposal5]
   \<and> proposals (updateAdminStatus 9 Resolved (ascii ''done'') (state5 (Some carol))) = [proposal5]"
proof -
  have a: "9 \<notin> id_proposal ` set (proposals (state5 (Some carol)))"
    by (simp add: state5_def proposal5_def)
  have p: "proposals (state5 (Some carol)) = [proposal5]" by (simp add: state5_def)
  from store_frame [of 9 "state5 (Some carol)" False 30 Resolved "ascii ''done''"] a p
  show ?thesis by simp
qed

lemma Math_max_Max:
  assumes "xs \<noteq> []"
  shows "Math_max xs = Some (Max (set xs))"
proof (cases xs)
  case Nil
  with assms show ?thesis by simp
next
  case (Cons a list)
  then show ?thesis using Max.set_eq_fold [of a list] by simp
qed

lemma add_one_js_exact: "- (2 ^ 53) \<le> m \<Longrightarrow> m < 2 ^ 53 \<Longrightarrow> add_one_js m = m + 1"
  by (simp add: add_one_js_def)

lemma newId_eq:
  assumes "exact_successor ps"
  shows "newId ps = (if ps = [] then 1 else Max (id_proposal ` set ps) + 1)"
proof (cases "ps = []")
  case True
  then show ?thesis by (simp add: newId_def)
next
  case False
  then have m: "Math_max (map id_proposal ps) = Some (Max (id_proposal ` set ps))"
    by (simp add: Math_max_Max)
  with assms have "add_one_js (Max (id_proposal ` set ps)) = Max (id_proposal ` set ps) + 1"
    by (simp add: exact_successor_def add_one_js_exact)
  with False m show ?thesis by (simp add: newId_def)
qed

lemma successor_fresh: "ps \<noteq> [] \<Longrightarrow> Max (id_proposal ` set ps) + 1 \<notin> id_proposal ` set ps"
proof
  assume "ps \<noteq> []" and "Max (id_proposal ` set ps) + 1 \<in> id_proposal ` set ps"
  then have "Max (id_proposal ` set ps) + 1 \<le> Max (id_proposal ` set ps)"
    by (intro Max_ge) auto
  then show False by simp
qed

lemma newId_fresh:
  assumes "exact_successor ps"
  shows "newId ps \<notin> id_proposal ` set ps"
  using successor_fresh [of ps] by (cases "ps = []") (simp_all add: newId_eq [OF assms])

text \<open>
  Claim C3, as amended. When the greatest id of the collection is at least \<open>- 2 ^ 53\<close>
  and less than \<open>2 ^ 53\<close> (or the collection is empty), a submission of an approved
  draft puts one new proposal at the head of the collection. Its id is 1 when the
  collection was empty, else the greatest id of the collection plus 1; no proposal of
  the collection has that id. The new proposal is in the first status, with an empty
  response and no signature.
\<close>

theorem handlePostSubmit_newId:
  assumes "isAIApproved st" and "exact_successor (proposals st)"
  shows "proposals (handlePostSubmit now st) = created now st # proposals st
       \<and> id_proposal (created now st) =
           (if proposals st = [] then 1 else Max (id_proposal ` set (proposals st)) + 1)
       \<and> id_proposal (created now st) \<notin> id_proposal ` set (proposals st)
       \<and> status (created now st) = Received
       \<and> adminResponse (created now st) = []
       \<and> signatures (created now st) = []"
proof -
  have c: "created now st =
        \<lparr>id_proposal = newId (proposals st),
         title = title_form (postForm st),
         content = content_form (postForm st),
         category = or_else (category_form (postForm st))
                      (or_else_opt (Option.bind (aiAnalysis st) detectedCategory) CAT_OTHER),
         status = Received, adminResponse = [], timestamp = now, signatures = []\<rparr>"
    and p: "proposals (handlePostSubmit now st) = created now st # proposals st"
    using assms(1) by (simp_all add: created_def handlePostSubmit_def Let_def)
  have i: "id_proposal (created now st) = newId (proposals st)" by (simp add: c)
  have r: "status (created now st) = Received \<and> adminResponse (created now st) = []
       \<and> signatures (created now st) = []"
    by (simp add: c)
  from p i r newId_eq [OF assms(2)] newId_fresh [OF assms(2)] show ?thesis by simp
qed

text \<open>
  Claim C3 as stated fails at the end of the exact range: over a store whose only
  proposal has the id \<open>2 ^ 53\<close>, the sum \<open>2 ^ 53 + 1\<close> is rounded to \<open>2 ^ 53\<close>, and the
  new proposal gets the id of the old one.
\<close>

theorem handlePostSubmit_newId_counterexample:
  "isAIApproved (approved_draft [proposal_big])
   \<and> map id_proposal (proposals (approved_draft [proposal_big])) = [9007199254740992]
   \<and> map id_proposal (proposals (handlePostSubmit 50 (approved_draft [proposal_big]))) =
       [9007199254740992, 9007199254740992]"
  by (simp add: approved_draft_def init_def handlePostSubmit_def newId_def add_one_js_def
      proposal_big_def proposal5_def Let_def)

theorem handlePostSubmit_newId_witness:
  "isAIApproved (approved_draft [])
   \<and> exact_successor (proposals (approved_draft []))
   \<and> map id_proposal (proposals (handlePostSubmit 50 (approved_draft []))) = [1]
   \<and> map status (proposals (handlePostSubmit 50 (approved_draft []))) = [Received]
   \<and> map signatures (proposals (handlePostSubmit 50 (approved_draft []))) = [[]]
   \<and> isAIApproved (approved_draft (seeds 0 0 0 0))
   \<and> exact_successor (proposals (approved_draft (seeds 0 0 0 0)))
   \<and> map id_proposal (proposals (handlePostSubmit 50 (approved_draft (seeds 0 0 0 0)))) = [4, 1, 2, 3]"
proof -
  have a0: "isAIApproved (approved_draft [])" and a1: "isAIApproved (approved_draft (seeds 0 0 0 0))"
    by (simp_all add: approved_draft_def)
  have p0: "proposals (approved_draft ps) = ps" for ps by (simp add: approved_draft_def)
  have e0: "exact_successor (proposals (approved_draft []))"
    by (simp add: p0 exact_successor_def)
  have e1: "exact_successor (proposals (approved_draft (seeds 0 0 0 0)))"
    by (simp add: p0 exact_successor_def ids_seeds)
  have m: "Max (id_proposal ` set (seeds 0 0 0 0)) = 3"
    using ids_seeds [of 0 0 0 0] by (simp flip: set_map)
  have ne: "seeds 0 0 0 0 \<noteq> []" by (simp add: seeds_def)
  from handlePostSubmit_newId [OF a0 e0, of 50]
  have r0: "map id_proposal (proposals (handlePostSubmit 50 (approved_draft []))) = [1]
     \<and> map status (proposals (handlePostSubmit 50 (approved_draft []))) = [Received]
     \<and> map signatures (proposals (handlePostSubmit 50 (approved_draft []))) = [[]]"
    by (simp add: p0)
  from handlePostSubmit_newId [OF a1 e1, of 50]
  have r1: "map id_proposal (proposals (handlePostSubmit 50 (approved_draft (seeds 0 0 0 0)))) = [4, 1, 2, 3]"
    by (simp add: p0 m ne ids_seeds)
  from a0 a1 e0 e1 r0 r1 show ?thesis by blast
qed

section \<open>Properties of the moderation client\<close>

lemma analyze_try_Inl_iff:
  "(\<exists>e. analyze_try g p t c = Inl e) \<longleftrightarrow>
   (g t c = Failed \<or> g t c = Replied None \<or> g t c = Replied (Some [])
    \<or> (\<exists>text. g t c = Replied (Some text) \<and> p text = None))"
  by (auto simp: analyze_try_def split: genai_outcome.splits option.splits)

lemma fallback_fields:
  "\<not> isAppropriate fallback" "category_res fallback = CAT_OTHER" "tags fallback = []"
  "advice_res fallback = Some ADVICE_UNAVAILABLE" "ADVICE_UNAVAILABLE \<noteq> []"
  by (simp_all add: fallback_def ADVICE_UNAVAILABLE_def)

text \<open>
  Claim C2. When the call of the service fails (the request is rejected, the response
  has no text or an empty one, or the text does not parse), \<open>analyzeProposal\<close> returns
  the object of its \<^verbatim>\<open>catch\<close> block: not appropriate, the category "other", no tag,
  and an advisory that is not empty. These are all the ways the \<^verbatim>\<open>try\<close> block throws
  (\<open>analyze_try_Inl_iff\<close>), and \<open>analyzeProposal\<close> returns a verdict in each of them.
\<close>

theorem analyzeProposal_fails_closed:
  assumes "generateContent t c = Failed \<or> generateContent t c = Replied None
           \<or> generateContent t c = Replied (Some [])
           \<or> (\<exists>text. generateContent t c = Replied (Some text) \<and> JSON_parse text = None)"
  shows "analyzeProposal generateContent JSON_parse t c = fallback
       \<and> \<not> isAppropriate (analyzeProposal generateContent JSON_parse t c)
       \<and> category_res (analyzeProposal generateContent JSON_parse t c) = CAT_OTHER
       \<and> tags (analyzeProposal generateContent JSON_parse t c) = []
       \<and> (\<exists>a. advice_res (analyzeProposal generateContent JSON_parse t c) = Some a \<and> a \<noteq> [])"
proof -
  from assms obtain e where "analyze_try generateContent JSON_parse t c = Inl e"
    using analyze_try_Inl_iff [of generateContent JSON_parse t c] by blast
  then have "analyzeProposal generateContent JSON_parse t c = fallback"
    by (simp add: analyzeProposal_def)
  then show ?thesis by (simp add: fallback_fields)
qed

theorem analyzeProposal_fails_closed_witness:
  "analyzeProposal (\<lambda>t c. Failed) (\<lambda>text. None) (ascii ''T'') (ascii ''C'') = fallback
   \<and> analyzeProposal (\<lambda>t c. Replied None) (\<lambda>text. None) (ascii ''T'') (ascii ''C'') = fallback
   \<and> analyzeProposal (\<lambda>t c. Replied (Some [])) (\<lambda>text. Some fallback) (ascii ''T'') (ascii ''C'') = fallback
   \<and> analyzeProposal (\<lambda>t c. Replied (Some (ascii ''{''))) (\<lambda>text. None) (ascii ''T'') (ascii ''C'') = fallback
   \<and> \<not> isAppropriate fallback \<and> category_res fallback = [0x305D, 0x306E, 0x4ED6] \<and> tags fallback = []
   \<and> advice_res fallback = Some ADVICE_UNAVAILABLE \<and> length ADVICE_UNAVAILABLE = 41"
proof -
  have 1: "analyzeProposal (\<lambda>t c. Failed) (\<lambda>text. None) (ascii ''T'') (ascii ''C'') = fallback"
    using analyzeProposal_fails_closed [of "\<lambda>t c. Failed" "ascii ''T''" "ascii ''C''" "\<lambda>text. None"]
    by simp
  have 2: "analyzeProposal (\<lambda>t c. Replied None) (\<lambda>text. None) (ascii ''T'') (ascii ''C'') = fallback"
    using analyzeProposal_fails_closed [of "\<lambda>t c. Replied None" "ascii ''T''" "ascii ''C''" "\<lambda>text. None"]
    by simp
  have 3: "analyzeProposal (\<lambda>t c. Replied (Some [])) (\<lambda>text. Some fallback) (ascii ''T'') (ascii ''C'') = fallback"
    using analyzeProposal_fails_closed [of "\<lambda>t c. Replied (Some [])" "ascii ''T''" "ascii ''C''" "\<lambda>text. Some fallback"]
    by simp
  have 4: "analyzeProposal (\<lambda>t c. Replied (Some (ascii ''{''))) (\<lambda>text. None) (ascii ''T'') (ascii ''C'') = fallback"
    using analyzeProposal_fails_closed [of "\<lambda>t c. Replied (Some (ascii ''{''))" "ascii ''T''" "ascii ''C''" "\<lambda>text. None"]
    by simp
  have 5: "\<not> isAppropriate fallback \<and> category_res fallback = [0x305D, 0x306E, 0x4ED6] \<and> tags fallback = []
   \<and> advice_res fallback = Some ADVICE_UNAVAILABLE \<and> length ADVICE_UNAVAILABLE = 41"
    by (simp add: fallback_def CAT_OTHER_def ADVICE_UNAVAILABLE_def)
  from 1 2 3 4 5 show ?thesis by blast
qed


section \<open>Properties of the submission gate\<close>

lemma settle_cases:
  "settle g p k st =
   (if k < length (inFlight st)
    then handleAIAnalyze_resume (analyzeProposal g p (fst (inFlight st ! k)) (snd (inFlight st ! k)))
           (st\<lparr>inFlight := splice_js k 1 (inFlight st)\<rparr>)
    else st)"
  by (simp add: settle_def)

lemma resume_approved: "isAIApproved (handleAIAnalyze_resume r st) = isAppropriate r"
  by (simp add: handleAIAnalyze_resume_def Let_def)

lemma resume_proposals: "proposals (handleAIAnalyze_resume r st) = proposals st"
  by (simp add: handleAIAnalyze_resume_def Let_def)

lemma resume_stored: "schoolProposals (handleAIAnalyze_resume r st) = schoolProposals st"
  by (simp add: handleAIAnalyze_resume_def Let_def)

lemma resume_inFlight: "inFlight (handleAIAnalyze_resume r st) = inFlight st"
  by (simp add: handleAIAnalyze_resume_def Let_def)

lemma step_blocked:
  assumes "\<not> isAIApproved st" and "\<not> approving e st"
  shows "\<not> isAIApproved (step e st) \<and> proposals (step e st) = proposals st"
proof (cases e)
  case (InputChange f v)
  then show ?thesis by (simp add: handleInputChange_def)
next
  case (PostSubmit now)
  with assms(1) show ?thesis by (simp add: handlePostSubmit_def)
next
  case AIAnalyze
  with assms(1) show ?thesis by (simp add: handleAIAnalyze_start_def)
next
  case (Settle g p k)
  with assms show ?thesis
    by (auto simp: settle_cases resume_approved resume_proposals)
qed

lemma run_blocked:
  "\<not> isAIApproved st \<Longrightarrow> no_approval es st \<Longrightarrow>
   \<not> isAIApproved (run es st) \<and> proposals (run es st) = proposals st"
proof (induction es arbitrary: st)
  case Nil
  then show ?case by simp
next
  case (Cons e es)
  from Cons.prems have b: "\<not> isAIApproved (step e st)" "proposals (step e st) = proposals st"
    and n: "no_approval es (step e st)"
    using step_blocked [of st e] by simp_all
  from Cons.IH [OF b(1) n] b(2) show ?case by simp
qed

lemma step_no_check:
  assumes "inFlight st = []" and "e \<noteq> AIAnalyze"
  shows "inFlight (step e st) = [] \<and> \<not> approving e st"
proof (cases e)
  case (InputChange f v)
  with assms show ?thesis by (simp add: handleInputChange_def)
next
  case (PostSubmit now)
  with assms show ?thesis by (simp add: handlePostSubmit_def Let_def)
next
  case AIAnalyze
  with assms show ?thesis by simp
next
  case (Settle g p k)
  with assms show ?thesis by (simp add: settle_cases)
qed

lemma no_check_no_approval:
  "inFlight st = [] \<Longrightarrow> AIAnalyze \<notin> set es \<Longrightarrow> no_approval es st"
proof (induction es arbitrary: st)
  case Nil
  then show ?case by simp
next
  case (Cons e es)
  then have "e \<noteq> AIAnalyze" and r: "AIAnalyze \<notin> set es" by auto
  with Cons.prems(1) have s: "inFlight (step e st) = []" "\<not> approving e st"
    using step_no_check [of st e] by simp_all
  from Cons.IH [OF s(1) r] s(2) show ?case by simp
qed

text \<open>
  What an edit does achieve. In a state where the draft is approved, an edit of a field
  of the draft (\<open>handleInputChange\<close>) clears the approval and the held verdict. In the
  state it leaves, \<open>handlePostSubmit\<close> changes nothing, so no proposal is created.
  Whatever edits, submissions, starts of checks and settlements of checks follow, as long
  as none of them settles a check with an approving verdict, the draft stays unapproved
  and the collection stays as it was; in particular, when no check was pending at the
  edit, as long as no new check is started.
\<close>

lemma edit_blocks_submission:
  assumes "isAIApproved st"
  shows "\<not> isAIApproved (handleInputChange f v st)
       \<and> aiAnalysis (handleInputChange f v st) = None
       \<and> handlePostSubmit now (handleInputChange f v st) = handleInputChange f v st
       \<and> (no_approval es (handleInputChange f v st) \<longrightarrow>
            \<not> isAIApproved (run es (handleInputChange f v st))
            \<and> proposals (run es (handleInputChange f v st)) = proposals st)
       \<and> (inFlight st = [] \<and> AIAnalyze \<notin> set es \<longrightarrow>
            \<not> isAIApproved (run es (handleInputChange f v st))
            \<and> proposals (run es (handleInputChange f v st)) = proposals st)"
proof -
  let ?st = "handleInputChange f v st"
  have b: "\<not> isAIApproved ?st" and a: "aiAnalysis ?st = None"
    and p: "proposals ?st = proposals st" and i: "inFlight ?st = inFlight st"
    by (simp_all add: handleInputChange_def)
  have s: "handlePostSubmit now ?st = ?st" using b by (simp add: handlePostSubmit_def)
  have u: "\<not> isAIApproved (run es ?st) \<and> proposals (run es ?st) = proposals st"
    if "no_approval es ?st"
    using run_blocked [OF b that] p by simp
  have w: "\<not> isAIApproved (run es ?st) \<and> proposals (run es ?st) = proposals st"
    if "inFlight st = [] \<and> AIAnalyze \<notin> set es"
    using that i u no_check_no_approval [of ?st es] by simp
  from b a s u w show ?thesis by blast
qed

lemmas gate_defs = handleInputChange_def handlePostSubmit_def handleAIAnalyze_start_def
  handleAIAnalyze_resume_def settle_def analyzeProposal_def analyze_try_def set_field_def
  splice_js_def or_else_def or_else_opt_def fallback_def Let_def

lemma edit_blocks_submission_attempts:
  "isAIApproved (approved_draft (seeds 0 0 0 0))
   \<and> no_approval attempts (handleInputChange Title (ascii ''T2'') (approved_draft (seeds 0 0 0 0)))
   \<and> \<not> isAIApproved (run attempts (handleInputChange Title (ascii ''T2'') (approved_draft (seeds 0 0 0 0))))
   \<and> proposals (run attempts (handleInputChange Title (ascii ''T2'') (approved_draft (seeds 0 0 0 0)))) =
       seeds 0 0 0 0"
proof -
  have a: "isAIApproved (approved_draft (seeds 0 0 0 0))" by (simp add: approved_draft_def)
  have p: "proposals (approved_draft (seeds 0 0 0 0)) = seeds 0 0 0 0"
    by (simp add: approved_draft_def)
  have n: "no_approval attempts (handleInputChange Title (ascii ''T2'') (approved_draft (seeds 0 0 0 0)))"
    by (simp add: attempts_def approved_draft_def init_def gate_defs rejecting_def accepting_def
        replying_def ascii_def)
  from edit_blocks_submission [OF a, of Title "ascii ''T2''" 0 attempts] n p a
  show ?thesis by simp
qed


lemma inFlight_seed_state: "inFlight seed_state = []"
  by (simp add: seed_state_def mount_def init_def)

lemma reachable_run: "reachable st \<Longrightarrow> reachable (run es st)"
  by (induction es arbitrary: st) (simp_all add: reachable.gate)

lemma reachable_seed_state: "reachable seed_state"
  unfolding seed_state_def by (rule reachable.first_visit)

text \<open>
  Claim C4 does not hold of the code when an older check is pending at the edit. The
  state \<open>approved_pending\<close> is reached by the handlers alone; in it the draft "A", "B2"
  is approved and the check of the earlier draft "A", "B" has not settled. The edit of
  the title to "Y" clears the approval. No new check is started; the old check settles
  with an approving verdict, the draft "Y", "B2" is approved, and the submission that
  follows creates a proposal with this title and content. This is the defect of claim
  C5, met from an approved draft.
\<close>

theorem stale_check_unblocks:
  "reachable approved_pending
   \<and> isAIApproved approved_pending
   \<and> title_form (postForm approved_pending) = ascii ''A''
   \<and> content_form (postForm approved_pending) = ascii ''B2''
   \<and> inFlight approved_pending = [(ascii ''A'', ascii ''B'')]
   \<and> \<not> isAIApproved edited_pending
   \<and> handlePostSubmit 60 edited_pending = edited_pending
   \<and> isAIApproved (settle replying accepting 0 edited_pending)
   \<and> proposals (run [Settle replying accepting 0, PostSubmit 70] edited_pending) =
       created 70 (settle replying accepting 0 edited_pending) # proposals seed_state
   \<and> title (created 70 (settle replying accepting 0 edited_pending)) = ascii ''Y''
   \<and> content (created 70 (settle replying accepting 0 edited_pending)) = ascii ''B2''"
proof -
  have r: "reachable approved_pending"
    unfolding approved_pending_def by (rule reachable_run [OF reachable_seed_state])
  have e: "isAIApproved approved_pending
   \<and> title_form (postForm approved_pending) = ascii ''A''
   \<and> content_form (postForm approved_pending) = ascii ''B2''
   \<and> inFlight approved_pending = [(ascii ''A'', ascii ''B'')]
   \<and> \<not> isAIApproved edited_pending
   \<and> handlePostSubmit 60 edited_pending = edited_pending
   \<and> isAIApproved (settle replying accepting 0 edited_pending)
   \<and> proposals (run [Settle replying accepting 0, PostSubmit 70] edited_pending) =
       created 70 (settle replying accepting 0 edited_pending) # proposals seed_state
   \<and> title (created 70 (settle replying accepting 0 edited_pending)) = ascii ''Y''
   \<and> content (created 70 (settle replying accepting 0 edited_pending)) = ascii ''B2''"
    by (simp add: edited_pending_def approved_pending_def inFlight_seed_state created_def
        gate_defs replying_def accepting_def ascii_def)
  from r e show ?thesis by blast
qed

text \<open>
  Claim C5 does not hold of the code: \<open>handleAIAnalyze\<close> takes the verdict as it comes and
  compares nothing. Here the check was started on the draft "A", "B" and the title was
  changed to "X" before the verdict came. The verdict is accepted all the same: the
  draft "X", "B", which no check has seen, is approved, and a submission stores it as a
  proposal.
\<close>

theorem stale_verdict_accepted:
  "inFlight racing = [(ascii ''A'', ascii ''B'')]
   \<and> title_form (postForm racing) = ascii ''X''
   \<and> content_form (postForm racing) = ascii ''B''
   \<and> \<not> isAIApproved racing
   \<and> isAIApproved (settle replying accepting 0 racing)
   \<and> title_form (postForm (settle replying accepting 0 racing)) = ascii ''X''
   \<and> proposals (handlePostSubmit 70 (settle replying accepting 0 racing)) =
       created 70 (settle replying accepting 0 racing) # proposals seed_state
   \<and> title (created 70 (settle replying accepting 0 racing)) = ascii ''X''
   \<and> content (created 70 (settle replying accepting 0 racing)) = ascii ''B''"
  by (simp add: racing_def inFlight_seed_state created_def gate_defs replying_def accepting_def
      ascii_def)

section \<open>The signers of a proposal are distinct\<close>

lemma distinct_take_drop:
  assumes "distinct ys"
  shows "distinct (take i ys @ drop (i + n) ys)"
proof -
  have "set (take i ys) \<inter> set (drop (i + n) ys) = {}"
    using assms set_take_disj_set_drop_if_distinct [of ys i "i + n"] by simp
  with assms show ?thesis by simp
qed

lemma distinct_splice:
  assumes "distinct (map f xs)"
  shows "distinct (map f (splice_js i n xs))"
proof -
  have "map f (splice_js i n xs) = take i (map f xs) @ drop (i + n) (map f xs)"
    by (simp add: splice_js_def take_map drop_map)
  with distinct_take_drop [OF assms, of i n] show ?thesis by simp
qed

lemma toggle_one_distinct:
  assumes "distinct (map userId (signatures p))"
  shows "distinct (map userId (signatures (toggle_one u t i p)))"
proof (cases "id_proposal p = i \<and> findIndex (\<lambda>s. userId s = id_user u) (signatures p) < 0")
  case True
  then have "\<forall>s\<in>set (signatures p). userId s \<noteq> id_user u" by (simp add: findIndex_neg_iff)
  then have "id_user u \<notin> userId ` set (signatures p)" by (auto simp: image_iff)
  with True assms show ?thesis by (simp add: toggle_one_def Let_def)
next
  case False
  with assms show ?thesis
    by (auto simp: toggle_one_def Let_def distinct_splice)
qed

lemma unique_toggle:
  "unique_signers (proposals st) \<Longrightarrow> unique_signers (proposals (toggleSignature c t i st))"
  by (auto simp: unique_signers_iff toggleSignature_proposals_cases toggle_one_distinct
      split: option.splits)

lemma unique_admin:
  "unique_signers (proposals st) \<Longrightarrow> unique_signers (proposals (updateAdminStatus i s r st))"
  by (auto simp: unique_signers_iff updateAdminStatus_proposals)

lemma unique_submit:
  "unique_signers (proposals st) \<Longrightarrow> unique_signers (proposals (handlePostSubmit now st))"
  by (simp add: unique_signers_def handlePostSubmit_def Let_def)

lemma unique_seeds: "unique_signers (seeds t1 t2 t3 t4)"
  by (simp add: unique_signers_def seeds_def)

lemma stored_eq_proposals:
  "schoolProposals (toggleSignature c t i st) =
     (case user st of None \<Rightarrow> schoolProposals st | Some u \<Rightarrow> Some (proposals (toggleSignature c t i st)))"
  "schoolProposals (updateAdminStatus i s r st) = Some (proposals (updateAdminStatus i s r st))"
  "schoolProposals (handlePostSubmit now st) =
     (if isAIApproved st then Some (proposals (handlePostSubmit now st)) else schoolProposals st)"
  by (simp_all add: toggleSignature_def updateAdminStatus_def handlePostSubmit_def Let_def
      split: option.splits)

lemma store_ok_mount: 
  assumes "case stored of None \<Rightarrow> True | Some ps \<Rightarrow> unique_signers ps"
  shows "store_ok (mount t1 t2 t3 t4 (init stored))"
  using assms by (cases stored) (simp_all add: store_ok_def mount_def init_def unique_seeds)

lemma store_ok_step: "store_ok st \<Longrightarrow> store_ok (step e st)"
proof (cases e)
  case (InputChange f v)
  assume "store_ok st"
  with InputChange show ?thesis by (simp add: store_ok_def handleInputChange_def)
next
  case (PostSubmit now)
  assume "store_ok st"
  with PostSubmit unique_submit [of st now] show ?thesis
    by (simp add: store_ok_def stored_eq_proposals)
next
  case AIAnalyze
  assume "store_ok st"
  with AIAnalyze show ?thesis by (simp add: store_ok_def handleAIAnalyze_start_def)
next
  case (Settle g p k)
  assume "store_ok st"
  with Settle show ?thesis by (simp add: store_ok_def settle_cases resume_proposals resume_stored)
qed

lemma reachable_store_ok: "reachable st \<Longrightarrow> store_ok st"
proof (induction rule: reachable.induct)
  case (first_visit t1 t2 t3 t4)
  show ?case by (rule store_ok_mount) simp
next
  case (reload st t1 t2 t3 t4)
  then show ?case by (intro store_ok_mount) (simp add: store_ok_def)
next
  case (set_user st u)
  then show ?case by (simp add: store_ok_def)
next
  case (set_view st v)
  then show ?case by (simp add: store_ok_def)
next
  case (set_modal st b)
  then show ?case by (simp add: store_ok_def)
next
  case (gate st e)
  then show ?case by (simp add: store_ok_step)
next
  case (toggle st confirmed now proposalId)
  with unique_toggle [of st confirmed now proposalId] show ?case
    by (simp add: store_ok_def stored_eq_proposals split: option.splits)
next
  case (admin st proposalId newStatus response)
  with unique_admin [of st proposalId newStatus response] show ?case
    by (simp add: store_ok_def stored_eq_proposals)
qed

text \<open>
  Claim C6. In every state the application can reach, no proposal has two signatures
  with the same \<open>userId\<close>; and from any collection with this property, a submission, a
  status update and a toggle of a signature each give a collection with this property.
\<close>

theorem unique_signers_invariant:
  "(reachable st \<longrightarrow> unique_signers (proposals st))
   \<and> (unique_signers (proposals st) \<longrightarrow>
        unique_signers (proposals (handlePostSubmit now st))
        \<and> unique_signers (proposals (updateAdminStatus i s r st))
        \<and> unique_signers (proposals (toggleSignature c t i st)))"
  using reachable_store_ok [of st] unique_submit [of st now] unique_admin [of st i s r]
    unique_toggle [of st c t i]
  by (auto simp: store_ok_def)

theorem unique_signers_invariant_witness:
  "reachable signed_twice
   \<and> map (\<lambda>p. map userId (signatures p)) (proposals signed_twice) =
       [[], [ascii ''demo'', id_user alice, id_user bob], []]
   \<and> unique_signers (proposals signed_twice)
   \<and> unique_signers (proposals (toggleSignature False 40 2 signed_twice))
   \<and> unique_signers (proposals (handlePostSubmit 40 signed_twice))
   \<and> unique_signers (proposals (updateAdminStatus 2 Resolved [] signed_twice))"
proof -
  have r: "reachable signed_twice"
    unfolding signed_twice_def seed_state_def
    by (intro reachable.toggle reachable.set_user reachable.first_visit)
  have m: "map (\<lambda>p. map userId (signatures p)) (proposals signed_twice) =
       [[], [ascii ''demo'', id_user alice, id_user bob], []]"
    by (simp add: signed_twice_def toggleSignature_def toggle_one_def Let_def
        proposals_seed_state seeds_def alice_def bob_def ascii_def)
  from unique_signers_invariant [of signed_twice 40 2 Resolved "[]" False 40] r
  have u: "unique_signers (proposals signed_twice)
   \<and> unique_signers (proposals (toggleSignature False 40 2 signed_twice))
   \<and> unique_signers (proposals (handlePostSubmit 40 signed_twice))
   \<and> unique_signers (proposals (updateAdminStatus 2 Resolved [] signed_twice))"
    by simp
  from r m u show ?thesis by blast
qed


section \<open>Properties of the view engine\<close>

subsection \<open>Sorting\<close>

lemma insert_js_insort:
  assumes "\<And>a b. cmp a b \<le> 0 \<longleftrightarrow> k a \<le> k b"
  shows "insert_js cmp x ys = insort_key k x ys"
  by (induction ys) (simp_all add: assms)

lemma sort_js_sort_key:
  assumes "\<And>a b. cmp a b \<le> 0 \<longleftrightarrow> k a \<le> k b"
  shows "sort_js cmp xs = sort_key k xs"
proof -
  have "insert_js cmp = insort_key k"
    by (intro ext) (rule insert_js_insort [OF assms])
  then show ?thesis by (simp add: sort_js_def sort_key_def)
qed

lemma sort_newest:
  "sort_js (\<lambda>a b. timestamp b - timestamp a) xs = sort_key (\<lambda>p. - timestamp p) xs"
  by (rule sort_js_sort_key) simp

lemma sort_by_signatures:
  "sort_js (\<lambda>a b. int (length (signatures b)) - int (length (signatures a))) xs =
   sort_key (\<lambda>p. - int (length (signatures p))) xs"
  by (rule sort_js_sort_key) simp

lemma filteredProposals_sort_key:
  "filteredProposals lc cf q Newest ps = sort_key (\<lambda>p. - timestamp p) (selected lc cf q ps)"
  "filteredProposals lc cf q BySignatures ps =
     sort_key (\<lambda>p. - int (length (signatures p))) (selected lc cf q ps)"
  by (simp_all add: filteredProposals_def sort_newest sort_by_signatures)

lemma sort_key_sorted_wrt: "sorted_wrt (\<lambda>a b. k a \<le> k b) (sort_key k xs)"
  using sorted_sort_key [of k xs] by (simp add: sorted_map)

lemma sort_key_neg_stable:
  fixes g :: "'a \<Rightarrow> int"
  shows "filter (\<lambda>p. g p = v) (sort_key (\<lambda>p. - g p) xs) = filter (\<lambda>p. g p = v) xs"
  using sort_key_stable [of "\<lambda>p. - g p" "- v" xs] by simp

text \<open>
  Claim C8. Whatever the filters, \<open>filteredProposals\<close> with the order by signatures
  gives a list whose numbers of signatures never increase, and with the order
  \<open>Newest\<close> a list whose timestamps never increase. In both cases the result is a
  rearrangement of the proposals the filters select, and the proposals with the same
  number of signatures (the same timestamp) stand in the order they had before the sort.
  With the category filter "all" and an empty search term the filters select every
  proposal.
\<close>

theorem filteredProposals_sorted:
  "sorted_wrt (\<lambda>a b. length (signatures a) \<ge> length (signatures b))
     (filteredProposals lc cf q BySignatures ps)
   \<and> sorted_wrt (\<lambda>a b. timestamp a \<ge> timestamp b) (filteredProposals lc cf q Newest ps)
   \<and> filter (\<lambda>p. length (signatures p) = n) (filteredProposals lc cf q BySignatures ps) =
       filter (\<lambda>p. length (signatures p) = n) (selected lc cf q ps)
   \<and> filter (\<lambda>p. timestamp p = t) (filteredProposals lc cf q Newest ps) =
       filter (\<lambda>p. timestamp p = t) (selected lc cf q ps)
   \<and> mset (filteredProposals lc cf q order ps) = mset (selected lc cf q ps)
   \<and> selected lc (ascii ''all'') [] ps = ps"
proof -
  have 1: "sorted_wrt (\<lambda>a b. length (signatures a) \<ge> length (signatures b))
     (filteredProposals lc cf q BySignatures ps)"
    using sort_key_sorted_wrt [of "\<lambda>p. - int (length (signatures p))" "selected lc cf q ps"]
    by (simp add: filteredProposals_sort_key)
  have 2: "sorted_wrt (\<lambda>a b. timestamp a \<ge> timestamp b) (filteredProposals lc cf q Newest ps)"
    using sort_key_sorted_wrt [of "\<lambda>p. - timestamp p" "selected lc cf q ps"]
    by (simp add: filteredProposals_sort_key)
  have 3: "filter (\<lambda>p. length (signatures p) = n) (filteredProposals lc cf q BySignatures ps) =
       filter (\<lambda>p. length (signatures p) = n) (selected lc cf q ps)"
    using sort_key_neg_stable [of "\<lambda>p. int (length (signatures p))" "int n" "selected lc cf q ps"]
    by (simp add: filteredProposals_sort_key)
  have 4: "filter (\<lambda>p. timestamp p = t) (filteredProposals lc cf q Newest ps) =
       filter (\<lambda>p. timestamp p = t) (selected lc cf q ps)"
    using sort_key_neg_stable [of timestamp t "selected lc cf q ps"]
    by (simp add: filteredProposals_sort_key)
  have 5: "mset (filteredProposals lc cf q order ps) = mset (selected lc cf q ps)"
    by (cases order) (simp_all add: filteredProposals_sort_key)
  have 6: "selected lc (ascii ''all'') [] ps = ps" by (simp add: selected_def)
  from 1 2 3 4 5 6 show ?thesis by blast
qed

lemma filteredProposals_seeds:
  "map id_proposal (filteredProposals (\<lambda>s. s) (ascii ''all'') [] BySignatures (seeds 0 0 0 0)) = [2, 1, 3]"
  "map id_proposal (filteredProposals (\<lambda>s. s) (ascii ''all'') [] Newest (seeds 0 0 0 0)) = [1, 2, 3]"
  "map id_proposal (filteredProposals (\<lambda>s. s) [0x8A2D, 0x5099, 0x30FB, 0x74B0, 0x5883] [0x9EBA, 0x985E]
      Newest (seeds 0 0 0 0)) = [2]"
  by (simp_all add: filteredProposals_def selected_def sort_js_def seeds_def ascii_def)

subsection \<open>Tags\<close>

lemma marker_nonSpace: "isMarker c \<Longrightarrow> nonSpace c"
  by (auto simp: isMarker_def nonSpace_def isSpace_def)

lemma spec_token_Nil: "spec_token [] = []"
  by (simp add: spec_token_def)

lemma spec_token_single: "spec_token [c] = []"
  by (simp add: spec_token_def)

lemma spec_token_skip: "\<not> isMarker c \<Longrightarrow> spec_token (c # w) = spec_token w"
  by (simp add: spec_token_def)

lemma spec_token_marker: "isMarker c \<Longrightarrow> w \<noteq> [] \<Longrightarrow> spec_token (c # w) = [c # w]"
  by (cases w) (simp_all add: spec_token_def)

lemma spec_tokens_Cons_nonSpace:
  "nonSpace c \<Longrightarrow>
   spec_tokens (c # cs) = spec_token (c # takeWhile nonSpace cs) @ spec_tokens (dropWhile nonSpace cs)"
  by (simp add: spec_tokens_def)

lemma spec_tokens_Cons_space: "\<not> nonSpace c \<Longrightarrow> spec_tokens (c # cs) = spec_tokens cs"
  by (simp add: spec_tokens_def)

lemma spec_tokens_split:
  "spec_tokens cs = spec_token (takeWhile nonSpace cs) @ spec_tokens (dropWhile nonSpace cs)"
proof (cases cs)
  case Nil
  then show ?thesis by (simp add: spec_tokens_def spec_token_Nil)
next
  case (Cons d ds)
  show ?thesis
  proof (cases "nonSpace d")
    case True
    with Cons show ?thesis by (simp add: spec_tokens_Cons_nonSpace)
  next
    case False
    with Cons show ?thesis by (simp add: spec_token_Nil)
  qed
qed

lemma match_all_spec: "match_all s = spec_tokens s"
proof (induction s rule: match_all.induct)
  case 1
  show ?case by (simp add: spec_tokens_def)
next
  case (2 c cs)
  show ?case
  proof (cases "isMarker c \<and> cs \<noteq> [] \<and> nonSpace (hd cs)")
    case True
    then have tw: "takeWhile nonSpace cs \<noteq> []" by (cases cs) simp_all
    from True have ns: "nonSpace c" by (simp add: marker_nonSpace)
    from True tw have "spec_token (c # takeWhile nonSpace cs) = [c # takeWhile nonSpace cs]"
      by (simp add: spec_token_marker)
    with True ns "2.IH"(1) show ?thesis by (simp add: spec_tokens_Cons_nonSpace)
  next
    case False
    with "2.IH"(2) have ih: "match_all cs = spec_tokens cs" by simp
    from False have m: "match_all (c # cs) = match_all cs" by auto
    show ?thesis
    proof (cases "nonSpace c")
      case ns: False
      with m ih show ?thesis by (simp add: spec_tokens_Cons_space)
    next
      case ns: True
      show ?thesis
      proof (cases "isMarker c")
        case mk: True
        with False have "cs = [] \<or> \<not> nonSpace (hd cs)" by simp
        then have "takeWhile nonSpace cs = []" and "dropWhile nonSpace cs = cs"
          by (cases cs; simp)+
        with m ih ns show ?thesis by (simp add: spec_tokens_Cons_nonSpace spec_token_single)
      next
        case mk: False
        have "spec_tokens (c # cs) =
              spec_token (takeWhile nonSpace cs) @ spec_tokens (dropWhile nonSpace cs)"
          using ns mk by (simp add: spec_tokens_Cons_nonSpace spec_token_skip)
        also have "\<dots> = spec_tokens cs" by (rule spec_tokens_split [symmetric])
        finally show ?thesis using m ih by simp
      qed
    qed
  qed
qed

lemma match_js_fold: 
  "(case match_js s of None \<Rightarrow> counts | Some ts \<Rightarrow> fold incr ts counts) = fold incr (match_all s) counts"
  by (cases "match_all s") (simp_all add: match_js_def)

lemma count_tags_fold:
  "fold (\<lambda>p counts. case match_js (content p) of None \<Rightarrow> counts | Some ts \<Rightarrow> fold incr ts counts) ps acc
   = fold incr (concat (map (\<lambda>p. match_all (content p)) ps)) acc"
  by (induction ps arbitrary: acc) (simp_all add: match_js_fold)

lemma incr_map:
  assumes "distinct ks"
  shows "incr t (map (\<lambda>x. (x, f x)) ks) =
         (if t \<in> set ks then map (\<lambda>x. (x, if x = t then f x + 1 else f x)) ks
          else map (\<lambda>x. (x, f x)) ks @ [(t, 1)])"
  using assms by (induction ks) auto

lemma spec_counts_snoc: "spec_counts (ts @ [t]) = incr t (spec_counts ts)"
proof -
  let ?ks = "rev (remdups (rev ts))"
  have d: "distinct ?ks" and s: "set ?ks = set ts" by simp_all
  show ?thesis
  proof (cases "t \<in> set ts")
    case True
    then have "spec_counts (ts @ [t]) =
          map (\<lambda>x. (x, if x = t then int (count_list ts x) + 1 else int (count_list ts x))) ?ks"
      by (simp add: spec_counts_def)
    also have "\<dots> = incr t (map (\<lambda>x. (x, int (count_list ts x))) ?ks)"
      using True s by (simp add: incr_map [OF d])
    finally show ?thesis by (simp add: spec_counts_def)
  next
    case False
    then have c: "count_list ts t = 0" by simp
    have "map (\<lambda>x. (x, int (count_list (ts @ [t]) x))) ?ks = map (\<lambda>x. (x, int (count_list ts x))) ?ks"
      using False s by (intro map_cong) auto
    with False c have "spec_counts (ts @ [t]) = map (\<lambda>x. (x, int (count_list ts x))) ?ks @ [(t, 1)]"
      by (simp add: spec_counts_def)
    also have "\<dots> = incr t (map (\<lambda>x. (x, int (count_list ts x))) ?ks)"
      using False s by (simp add: incr_map [OF d])
    finally show ?thesis by (simp add: spec_counts_def)
  qed
qed

lemma fold_incr_spec: "fold incr ts [] = spec_counts ts"
  by (induction ts rule: rev_induct) (simp_all add: spec_counts_def [of "[]"] spec_counts_snoc)

lemma count_tags_spec:
  "count_tags ps = spec_counts (concat (map (\<lambda>p. spec_tokens (content p)) ps))"
  by (simp add: count_tags_def count_tags_fold fold_incr_spec match_all_spec)

lemma trendingTags_refines: "trendingTags ps = spec_trendingTags ps"
proof -
  have "sort_js (\<lambda>a b. snd b - snd a) xs = sort_key (\<lambda>e. - snd e) xs"
    for xs :: "(jsstring \<times> int) list"
    by (rule sort_js_sort_key) simp
  then show ?thesis by (simp add: trendingTags_def spec_trendingTags_def count_tags_spec)
qed

lemma match_all_ex1: "match_all (ascii ''#a #a #b'') = [ascii ''#a'', ascii ''#a'', ascii ''#b'']"
  by (simp add: ascii_def isMarker_def nonSpace_def isSpace_def)

lemma match_all_ex2: "match_all (ascii ''#a #c'') = [ascii ''#a'', ascii ''#c'']"
  by (simp add: ascii_def isMarker_def nonSpace_def isSpace_def)

lemma trending_examples:
  assumes "content p1 = ascii ''#a #a #b''" and "content p2 = ascii ''#a #c''"
  shows "trendingTags [p1, p2] = [(ascii ''#a'', 3), (ascii ''#b'', 1), (ascii ''#c'', 1)]"
    and "trendingTags [p2, p1] = [(ascii ''#a'', 3), (ascii ''#c'', 1), (ascii ''#b'', 1)]"
  using assms
  by (simp_all add: trendingTags_def count_tags_def match_js_def match_all_ex1 match_all_ex2
      sort_js_def) (simp_all add: ascii_def)

lemma trending_empty:
  assumes "\<forall>p\<in>set ps. spec_tokens (content p) = []"
  shows "trendingTags ps = []"
proof -
  from assms have c: "concat (map (\<lambda>p. spec_tokens (content p)) ps) = []" by simp
  show ?thesis unfolding trendingTags_refines spec_trendingTags_def c
    by (simp add: spec_counts_def)
qed

lemma spec_token_shape:
  assumes "t \<in> set (spec_token w)" and "\<forall>c\<in>set w. nonSpace c"
  shows "isMarker (hd t) \<and> 2 \<le> length t \<and> (\<forall>c\<in>set t. nonSpace c)"
proof -
  let ?r = "dropWhile (\<lambda>c. \<not> isMarker c) w"
  from assms(1) have t: "t = ?r" and l: "2 \<le> length ?r"
    by (auto simp: spec_token_def Let_def split: if_splits)
  have "?r \<noteq> []"
  proof
    assume "?r = []"
    then have "length ?r = 0" by (simp only: list.size)
    with l show False by linarith
  qed
  then have "isMarker (hd ?r)" using hd_dropWhile [of "\<lambda>c. \<not> isMarker c" w] by simp
  moreover have "set ?r \<subseteq> set w" by (rule set_dropWhileD [THEN subsetI])
  ultimately show ?thesis using t l assms(2) by auto
qed

lemma spec_words_nonSpace: "w \<in> set (spec_words s) \<Longrightarrow> c' \<in> set w \<Longrightarrow> nonSpace c'"
proof (induction s rule: spec_words.induct)
  case 1
  then show ?case by simp
next
  case (2 c cs)
  show ?case
  proof (cases "nonSpace c")
    case False
    with "2.prems" have "w \<in> set (spec_words cs)" by simp
    with False "2.IH"(2) "2.prems"(2) show ?thesis by simp
  next
    case True
    with "2.prems"(1) have "w = c # takeWhile nonSpace cs \<or> w \<in> set (spec_words (dropWhile nonSpace cs))"
      by simp
    then show ?thesis
    proof
      assume "w = c # takeWhile nonSpace cs"
      with "2.prems"(2) have "c' = c \<or> c' \<in> set (takeWhile nonSpace cs)" by simp
      with True show ?thesis using set_takeWhileD [of c' nonSpace cs] by blast
    next
      assume "w \<in> set (spec_words (dropWhile nonSpace cs))"
      with True "2.IH"(1) "2.prems"(2) show ?thesis by simp
    qed
  qed
qed

lemma spec_tokens_shape:
  assumes "t \<in> set (spec_tokens s)"
  shows "isMarker (hd t) \<and> 2 \<le> length t \<and> (\<forall>c\<in>set t. nonSpace c)"
proof -
  from assms obtain w where "w \<in> set (spec_words s)" and "t \<in> set (spec_token w)"
    by (auto simp: spec_tokens_def)
  then show ?thesis using spec_token_shape [of t w] spec_words_nonSpace [of w s] by blast
qed

lemma trendingTags_entries:
  assumes "e \<in> set (trendingTags ps)"
  shows "isMarker (hd (fst e)) \<and> 2 \<le> length (fst e) \<and> list_all nonSpace (fst e)"
proof -
  let ?all = "concat (map (\<lambda>p. spec_tokens (content p)) ps)"
  from assms have "e \<in> set (sort_key (\<lambda>e. - snd e) (spec_counts ?all))"
    unfolding trendingTags_refines spec_trendingTags_def by (rule in_set_takeD)
  then have "fst e \<in> set ?all" by (auto simp: spec_counts_def)
  then obtain p where "p \<in> set ps" and "fst e \<in> set (spec_tokens (content p))" by auto
  from spec_tokens_shape [OF this(2)] show ?thesis by (simp add: list_all_iff)
qed

lemma trendingTags_sorted: "sorted_wrt (\<lambda>a b. snd a \<ge> snd b) (trendingTags ps)"
proof -
  let ?xs = "spec_counts (concat (map (\<lambda>p. spec_tokens (content p)) ps))"
  have "sorted_wrt (\<lambda>a b. - snd a \<le> - snd b) (sort_key (\<lambda>e. - snd e) ?xs)"
    by (rule sort_key_sorted_wrt)
  then have "sorted_wrt (\<lambda>a b. - snd a \<le> - snd b) (take 5 (sort_key (\<lambda>e. - snd e) ?xs))"
    by (rule sorted_wrt_take)
  then show ?thesis by (simp add: trendingTags_refines spec_trendingTags_def)
qed

text \<open>
  Claim C9. \<open>trendingTags\<close> is the ranking of the specification: the tag tokens of all
  contents (in each word, from the first marker that is not the last character of the
  word up to the end of the word) are counted, and the first five are returned in
  descending order of their counts, tokens with the same count in the order they were
  first seen. Every token returned begins with a marker, has at least one more character
  and holds no white space. For two proposals with the contents "#a #a #b" and "#a #c",
  in either order, the first entry is ("#a", 3) and the second has count 1. When no
  content holds a token, the result is empty.
\<close>

theorem trendingTags_top5:
  "trendingTags ps = spec_trendingTags ps
   \<and> length (trendingTags ps) \<le> 5
   \<and> sorted_wrt (\<lambda>a b. snd a \<ge> snd b) (trendingTags ps)
   \<and> (\<forall>e\<in>set (trendingTags ps).
         isMarker (hd (fst e)) \<and> 2 \<le> length (fst e) \<and> list_all nonSpace (fst e))
   \<and> (content p1 = ascii ''#a #a #b'' \<and> content p2 = ascii ''#a #c'' \<longrightarrow>
         hd (trendingTags [p1, p2]) = (ascii ''#a'', 3) \<and> snd (trendingTags [p1, p2] ! 1) = 1
         \<and> hd (trendingTags [p2, p1]) = (ascii ''#a'', 3) \<and> snd (trendingTags [p2, p1] ! 1) = 1)
   \<and> ((\<forall>p\<in>set ps. spec_tokens (content p) = []) \<longrightarrow> trendingTags ps = [])"
proof -
  have 1: "trendingTags ps = spec_trendingTags ps" by (rule trendingTags_refines)
  have 2: "length (trendingTags ps) \<le> 5" by (simp add: trendingTags_def)
  have 3: "sorted_wrt (\<lambda>a b. snd a \<ge> snd b) (trendingTags ps)" by (rule trendingTags_sorted)
  have 4: "\<forall>e\<in>set (trendingTags ps).
         isMarker (hd (fst e)) \<and> 2 \<le> length (fst e) \<and> list_all nonSpace (fst e)"
    using trendingTags_entries [of _ ps] by blast
  have 5: "hd (trendingTags [p1, p2]) = (ascii ''#a'', 3) \<and> snd (trendingTags [p1, p2] ! 1) = 1
         \<and> hd (trendingTags [p2, p1]) = (ascii ''#a'', 3) \<and> snd (trendingTags [p2, p1] ! 1) = 1"
    if "content p1 = ascii ''#a #a #b'' \<and> content p2 = ascii ''#a #c''"
    using that trending_examples [of p1 p2] by simp
  have 6: "trendingTags ps = []" if "\<forall>p\<in>set ps. spec_tokens (content p) = []"
    using that by (rule trending_empty)
  from 1 2 3 4 5 6 show ?thesis by blast
qed

theorem trendingTags_top5_witness:
  "content tagged_ab = ascii ''#a #a #b'' \<and> content tagged_ac = ascii ''#a #c''
   \<and> trendingTags [tagged_ab, tagged_ac] ! 0 = (ascii ''#a'', 3)
   \<and> snd (trendingTags [tagged_ab, tagged_ac] ! 1) = 1
   \<and> trendingTags [tagged_ac, tagged_ab] ! 0 = (ascii ''#a'', 3)
   \<and> snd (trendingTags [tagged_ac, tagged_ab] ! 1) = 1
   \<and> map (\<lambda>p. spec_tokens (content p)) [proposal5, proposal5] = [[], []]
   \<and> trendingTags [proposal5, proposal5] = []"
proof -
  have c: "content tagged_ab = ascii ''#a #a #b'' \<and> content tagged_ac = ascii ''#a #c''"
    by (simp add: tagged_ab_def tagged_ac_def)
  have n: "spec_tokens (content proposal5) = []"
    by (simp add: match_all_spec [symmetric] proposal5_def ascii_def isMarker_def)
  have ne1: "trendingTags [tagged_ab, tagged_ac] \<noteq> []" and ne2: "trendingTags [tagged_ac, tagged_ab] \<noteq> []"
    using c trending_examples [of tagged_ab tagged_ac] by simp_all
  have h: "\<forall>p\<in>set [proposal5, proposal5]. spec_tokens (content p) = []" using n by simp
  note T = trendingTags_top5 [of "[proposal5, proposal5]" tagged_ab tagged_ac]
  from T c have e: "hd (trendingTags [tagged_ab, tagged_ac]) = (ascii ''#a'', 3)
      \<and> snd (trendingTags [tagged_ab, tagged_ac] ! 1) = 1
      \<and> hd (trendingTags [tagged_ac, tagged_ab]) = (ascii ''#a'', 3)
      \<and> snd (trendingTags [tagged_ac, tagged_ab] ! 1) = 1"
    by blast
  from T h have z: "trendingTags [proposal5, proposal5] = []" by blast
  from e ne1 ne2 have e': "trendingTags [tagged_ab, tagged_ac] ! 0 = (ascii ''#a'', 3)
      \<and> trendingTags [tagged_ac, tagged_ab] ! 0 = (ascii ''#a'', 3)"
    by (simp add: hd_conv_nth)
  from c e e' n z show ?thesis by simp
qed


end
